theory Spec2Isabelle
  imports Complex_Main "HOL-Library.Word" "HOL-Library.Sublist"
begin

section \<open>Errors and results\<close>

text \<open>
  A JavaScript \<^verbatim>\<open>throw new Error(msg)\<close> is the value \<open>Inl (Error msg)\<close>; a normal return
  of \<open>v\<close> is \<open>Inr v\<close>.
\<close>

datatype error = Error string

fun bindE :: "'err + 'v \<Rightarrow> ('v \<Rightarrow> 'err + 'w) \<Rightarrow> 'err + 'w" where
  "bindE (Inl e) f = Inl e"
| "bindE (Inr v) f = f v"

section \<open>makeWebsocketUrl\<close>

text \<open>\<^verbatim>\<open>String.prototype.startsWith(p)\<close>: the first \<open>length p\<close> characters are \<open>p\<close>.\<close>

definition startsWith :: "string \<Rightarrow> string \<Rightarrow> bool" where
  "startsWith s p = (take (length p) s = p)"

text \<open>
  \<^verbatim>\<open>s.replace(/^pat/, rep)\<close> for a literal pattern anchored at the start and a
  replacement without \<^verbatim>\<open>$\<close>: the match, when there is one, is the leading \<open>pat\<close>.
\<close>

definition replace_anchored :: "string \<Rightarrow> string \<Rightarrow> string \<Rightarrow> string" where
  "replace_anchored pat rep s =
     (if take (length pat) s = pat then rep @ drop (length pat) s else s)"

definition makeWebsocketUrl :: "string \<Rightarrow> error + string" where
  "makeWebsocketUrl endpoint =
     (if \<not> startsWith endpoint ''https://''
      then Inl (Error (''unsupported URL: '' @ endpoint))
      else Inr (replace_anchored ''https:'' ''wss:'' endpoint))"

section \<open>JavaScript numbers\<close>

text \<open>
  A JavaScript number is a double. The finite doubles are rational numbers, and an
  arithmetic operation returns the double nearest to the exact result: 53 significant
  bits, ties to the even significand. \<open>double x\<close> is that nearest double: the shift
  \<open>s\<close> brings \<open>\<bar>x\<bar> * 2 ^ s\<close> into the range from \<open>2 ^ 52\<close> up to \<open>2 ^ 53\<close>, where the
  doubles are the integers. The range of the exponent is not modelled: the model has
  no overflow and no subnormal numbers. \<^verbatim>\<open>Math.ceil\<close> of a double is a double and needs
  no rounding.
\<close>

fun bit_length :: "nat \<Rightarrow> nat" where
  "bit_length n = (if n = 0 then 0 else Suc (bit_length (n div 2)))"

declare bit_length.simps [simp del]

definition round_half_even :: "rat \<Rightarrow> int" where
  "round_half_even y =
     (let f = \<lfloor>y\<rfloor>; d = y - of_int f
      in if d < 1 / 2 \<or> (d = 1 / 2 \<and> even f) then f else f + 1)"

definition significand_shift :: "rat \<Rightarrow> int" where
  "significand_shift x =
     (let (a, c) = quotient_of x;
          s0 = 53 - int (bit_length (nat a)) + int (bit_length (nat c))
      in if x * 2 powi s0 < 2 ^ 53 then s0 else s0 - 1)"

definition double :: "rat \<Rightarrow> rat" where
  "double x =
     (if x = 0 then 0
      else let s = significand_shift \<bar>x\<bar>
           in sgn x * (of_int (round_half_even (\<bar>x\<bar> * 2 powi s)) / 2 powi s))"

definition double_div :: "rat \<Rightarrow> rat \<Rightarrow> rat" where
  "double_div x y = double (x / y)"

definition double_add :: "rat \<Rightarrow> rat \<Rightarrow> rat" where
  "double_add x y = double (x + y)"

definition double_mul :: "rat \<Rightarrow> rat \<Rightarrow> rat" where
  "double_mul x y = double (x * y)"

definition Math_ceil :: "rat \<Rightarrow> rat" where
  "Math_ceil x = of_int \<lceil>x\<rceil>"

section \<open>Loader\<close>

text \<open>
  \<^verbatim>\<open>PACKET_DATA_SIZE\<close> is imported from the transaction module, which is not among the
  sources; it is a parameter of the model, an integer, and so is the chunk size
  derived from it. \<open>getMinNumSignatures\<close> takes the integer that its argument holds and
  computes as the code does, in doubles: the division, the two additions and the
  product each round to the nearest double. A division by zero gives \<^verbatim>\<open>Infinity\<close> or
  \<^verbatim>\<open>NaN\<close>, which stays non-finite through \<^verbatim>\<open>Math.ceil\<close>, the additions and the product.
\<close>

datatype number = Finite rat | NonFinite

definition CHUNK_SIZE :: "int \<Rightarrow> int" where
  "CHUNK_SIZE PACKET_DATA_SIZE = PACKET_DATA_SIZE - 300"

definition chunkSize :: "int \<Rightarrow> int" where
  "chunkSize PACKET_DATA_SIZE = CHUNK_SIZE PACKET_DATA_SIZE"

definition getMinNumSignatures :: "int \<Rightarrow> int \<Rightarrow> number" where
  "getMinNumSignatures PACKET_DATA_SIZE dataLength =
     (if chunkSize PACKET_DATA_SIZE = 0 then NonFinite
      else Finite (double_mul 2
        (double_add
          (double_add
            (Math_ceil (double_div (of_int dataLength) (of_int (chunkSize PACKET_DATA_SIZE))))
            1)
          1)))"

section \<open>Byte buffers and layouts\<close>

text \<open>
  A \<^verbatim>\<open>Uint8Array\<close> is a list of bytes. The layouts come from the buffer-layout
  package: \<^verbatim>\<open>u8\<close> and \<^verbatim>\<open>u32\<close> read little-endian unsigned integers and raise a
  \<^verbatim>\<open>RangeError\<close> when the read leaves the buffer; \<^verbatim>\<open>nu64\<close> reads two 32-bit halves
  and returns \<^verbatim>\<open>hi32 * 2^32 + lo32\<close> as a JavaScript number, that is, the nearest
  double; \<^verbatim>\<open>blob(n)\<close> decodes by \<^verbatim>\<open>slice(offset, offset + n)\<close>, which never raises and
  returns fewer bytes at the end of the buffer; \<^verbatim>\<open>seq(elem, count)\<close> decodes
  \<open>count\<close> elements one after the other.
\<close>

type_synonym byte = "8 word"
type_synonym Uint8Array = "byte list"

fun le_value :: "byte list \<Rightarrow> nat" where
  "le_value [] = 0"
| "le_value (x # xs) = unat x + 256 * le_value xs"

definition readUIntLE :: "Uint8Array \<Rightarrow> nat \<Rightarrow> nat \<Rightarrow> error + nat" where
  "readUIntLE b offset byteLength =
     (if offset + byteLength \<le> length b
      then Inr (le_value (take byteLength (drop offset b)))
      else Inl (Error ''RangeError: Trying to access beyond buffer length''))"

definition u8 :: "Uint8Array \<Rightarrow> nat \<Rightarrow> error + nat" where
  "u8 b offset = readUIntLE b offset 1"

definition u32 :: "Uint8Array \<Rightarrow> nat \<Rightarrow> error + nat" where
  "u32 b offset = readUIntLE b offset 4"

text \<open>
  The double nearest to a non-negative integer (53 significant bits, ties to the even
  significand), computed on the integers with the number of binary digits
  \<open>bit_length\<close>. Integers below \<open>2 ^ 53\<close> are their own nearest double.
\<close>

definition nearest_double :: "nat \<Rightarrow> nat" where
  "nearest_double n =
     (let e = bit_length n - 53; q = n div 2 ^ e; r = n mod 2 ^ e
      in if 2 * r < 2 ^ e \<or> (2 * r = 2 ^ e \<and> even q) then q * 2 ^ e else (q + 1) * 2 ^ e)"

definition V2E32 :: nat where
  "V2E32 = 2 ^ 32"

definition roundedInt64 :: "nat \<Rightarrow> nat \<Rightarrow> nat" where
  "roundedInt64 hi32 lo32 = nearest_double (hi32 * V2E32 + lo32)"

definition nu64 :: "Uint8Array \<Rightarrow> nat \<Rightarrow> error + nat" where
  "nu64 b offset =
     bindE (readUIntLE b offset 4) (\<lambda>lo32.
     bindE (readUIntLE b (offset + 4) 4) (\<lambda>hi32.
     Inr (roundedInt64 hi32 lo32)))"

definition blob :: "nat \<Rightarrow> Uint8Array \<Rightarrow> nat \<Rightarrow> error + Uint8Array" where
  "blob n b offset = Inr (take n (drop offset b))"

fun seq :: "(Uint8Array \<Rightarrow> nat \<Rightarrow> error + 'a) \<Rightarrow> nat \<Rightarrow> nat \<Rightarrow> Uint8Array \<Rightarrow> nat
    \<Rightarrow> error + 'a list" where
  "seq elem elemSpan 0 b offset = Inr []"
| "seq elem elemSpan (Suc count) b offset =
     bindE (elem b offset) (\<lambda>x.
     bindE (seq elem elemSpan count b (offset + elemSpan)) (\<lambda>xs.
     Inr (x # xs)))"

section \<open>Public keys\<close>

text \<open>
  Modelled from the spec: the \<^verbatim>\<open>PublicKey\<close> class and \<^verbatim>\<open>Layout.publicKey\<close> of the
  publickey and layout modules, which are not among the sources. An address is a
  32-byte identifier compared by its bytes; its layout is a 32-byte blob; the
  constructor rejects an input longer than 32 bytes.
\<close>

datatype PublicKey = PublicKey Uint8Array

definition PUBLIC_KEY_LENGTH :: nat where
  "PUBLIC_KEY_LENGTH = 32"

definition new_PublicKey :: "Uint8Array \<Rightarrow> error + PublicKey" where
  "new_PublicKey v =
     (if length v > PUBLIC_KEY_LENGTH then Inl (Error ''Invalid public key input'')
      else Inr (PublicKey v))"

definition publicKey :: "Uint8Array \<Rightarrow> nat \<Rightarrow> error + Uint8Array" where
  "publicKey = blob 32"

text \<open>\<^verbatim>\<open>xs.map(x => new PublicKey(x))\<close>: the first failing construction raises.\<close>

fun mapE :: "('a \<Rightarrow> error + 'b) \<Rightarrow> 'a list \<Rightarrow> error + 'b list" where
  "mapE f [] = Inr []"
| "mapE f (x # xs) = bindE (f x) (\<lambda>y. bindE (mapE f xs) (\<lambda>ys. Inr (y # ys)))"

section \<open>Address lookup table accounts\<close>

record AddressLookupTableState =
  deactivationSlot :: nat
  lastExtendedSlot :: nat
  lastExtendedSlotStartIndex :: nat
  authority :: "PublicKey option"
  addresses :: "PublicKey list"

record AddressLookupTableAccount =
  key :: PublicKey
  state :: AddressLookupTableState

record LookupTableMeta =
  meta_typeIndex :: nat
  meta_deactivationSlot :: nat
  meta_lastExtendedSlot :: nat
  meta_lastExtendedStartIndex :: nat
  meta_authority :: "Uint8Array list"

record AccountType =
  index :: nat
  layout :: "Uint8Array \<Rightarrow> error + LookupTableMeta"

definition LOOKUP_TABLE_META_SIZE :: int where
  "LOOKUP_TABLE_META_SIZE = 56"

text \<open>
  The structure layout of the metadata: fields at offsets 0, 4, 12, 20; the unnamed
  option byte at offset 21 is skipped; the authority sequence starts at offset 22 and
  takes its count from the byte one position before it.
\<close>

definition LookupTableMetaLayout_layout :: "Uint8Array \<Rightarrow> error + LookupTableMeta" where
  "LookupTableMetaLayout_layout b =
     bindE (u32 b 0) (\<lambda>typeIndex.
     bindE (nu64 b 4) (\<lambda>deactivationSlot.
     bindE (nu64 b 12) (\<lambda>lastExtendedSlot.
     bindE (u8 b 20) (\<lambda>lastExtendedStartIndex.
     bindE (u8 b (22 - 1)) (\<lambda>count.
     bindE (seq publicKey 32 count b 22) (\<lambda>authority.
     Inr \<lparr>meta_typeIndex = typeIndex,
          meta_deactivationSlot = deactivationSlot,
          meta_lastExtendedSlot = lastExtendedSlot,
          meta_lastExtendedStartIndex = lastExtendedStartIndex,
          meta_authority = authority\<rparr>))))))"

definition LookupTableMetaLayout :: AccountType where
  "LookupTableMetaLayout = \<lparr>index = 1, layout = LookupTableMetaLayout_layout\<rparr>"

text \<open>
  Modelled from the spec: \<^verbatim>\<open>decodeData\<close> of the account-data module and \<^verbatim>\<open>assert\<close>
  of the util module, which are not among the sources. The spec calls the former a
  generic fixed-layout field decoder and the first field of the metadata a type tag.
  \<open>deserialize\<close> hands it the account type, that is the layout together with the
  expected tag \<open>index = 1\<close>, and takes from it a decoded object with a \<open>typeIndex\<close>
  field. The model runs the layout's decoder, turns a failure of it into an error,
  and rejects data whose decoded \<open>typeIndex\<close> is not the expected \<open>index\<close>, which is the
  one use the pair has for its \<open>index\<close>. \<^verbatim>\<open>assert\<close> raises an error with the given
  message when its condition is false.
\<close>

definition decodeData :: "AccountType \<Rightarrow> Uint8Array \<Rightarrow> error + LookupTableMeta" where
  "decodeData type data =
     (case layout type data of
        Inl (Error err) \<Rightarrow> Inl (Error (''invalid instruction; '' @ err))
      | Inr decoded \<Rightarrow>
          if meta_typeIndex decoded \<noteq> index type
          then Inl (Error ''invalid account data; account type mismatch'')
          else Inr decoded)"

definition assert :: "bool \<Rightarrow> string \<Rightarrow> error + unit" where
  "assert condition message = (if condition then Inr () else Inl (Error message))"

text \<open>The remainder operator \<^verbatim>\<open>%\<close> takes the sign of the dividend.\<close>

definition js_rem :: "int \<Rightarrow> int \<Rightarrow> int" where
  "js_rem a b = sgn a * (\<bar>a\<bar> mod \<bar>b\<bar>)"

text \<open>
  Buffers live in a store: a list of the \<^verbatim>\<open>Uint8Array\<close> objects allocated so far, a
  reference being an index into it. \<^verbatim>\<open>slice\<close> allocates a new object holding a copy;
  the decoders only read. \<open>deserialize_store\<close> is \<^verbatim>\<open>AddressLookupTableAccount.deserialize\<close>
  on a reference, returning the result and the store after the call.
\<close>

type_synonym store = "Uint8Array list"

definition Uint8Array_slice :: "store \<Rightarrow> nat \<Rightarrow> nat \<Rightarrow> store \<times> nat" where
  "Uint8Array_slice h r start = (h @ [drop start (h ! r)], length h)"

definition deserialize_store ::
    "store \<Rightarrow> nat \<Rightarrow> (error + AddressLookupTableState) \<times> store" where
  "deserialize_store h accountData =
     (case decodeData LookupTableMetaLayout (h ! accountData) of
        Inl e \<Rightarrow> (Inl e, h)
      | Inr meta \<Rightarrow>
         (let serializedAddressesLen =
                int (length (h ! accountData)) - LOOKUP_TABLE_META_SIZE
          in (case assert (serializedAddressesLen \<ge> 0) ''lookup table is invalid'' of
                Inl e \<Rightarrow> (Inl e, h)
              | Inr _ \<Rightarrow>
                 (case assert (js_rem serializedAddressesLen 32 = 0)
                         ''lookup table is invalid'' of
                    Inl e \<Rightarrow> (Inl e, h)
                  | Inr _ \<Rightarrow>
                     (let numSerializedAddresses = serializedAddressesLen div 32;
                          (h', sliced) =
                             Uint8Array_slice h accountData (nat LOOKUP_TABLE_META_SIZE)
                      in (bindE (seq publicKey 32 (nat numSerializedAddresses)
                                   (h' ! sliced) 0) (\<lambda>addresses.
                          bindE (case meta_authority meta of
                                   [] \<Rightarrow> Inr None
                                 | a # _ \<Rightarrow> bindE (new_PublicKey a) (\<lambda>k. Inr (Some k)))
                            (\<lambda>auth.
                          bindE (mapE new_PublicKey addresses) (\<lambda>keys.
                          Inr \<lparr>deactivationSlot = meta_deactivationSlot meta,
                               lastExtendedSlot = meta_lastExtendedSlot meta,
                               lastExtendedSlotStartIndex = meta_lastExtendedStartIndex meta,
                               authority = auth,
                               addresses = keys\<rparr>))), h'))))))"

text \<open>The function on the bytes alone: the call on a store that holds only the argument.\<close>

definition deserialize :: "Uint8Array \<Rightarrow> error + AddressLookupTableState" where
  "deserialize accountData = fst (deserialize_store [accountData] 0)"

text \<open>
  \<^verbatim>\<open>new BN(number)\<close> of the bn.js package: a non-negative integer below \<open>2 ^ 53\<close> becomes
  the big number of the same value; from \<open>2 ^ 53\<close> on the constructor's assertion
  fails. What \<^verbatim>\<open>new BN('0xffffffffffffffff')\<close> evaluates to (the string is parsed in base
  10, no base being given) is left as a parameter of \<open>isActive\<close>.
\<close>

definition BN_number :: "nat \<Rightarrow> error + nat" where
  "BN_number n = (if n < 2 ^ 53 then Inr n else Inl (Error ''Assertion failed''))"

definition isActive :: "error + nat \<Rightarrow> AddressLookupTableAccount \<Rightarrow> error + bool" where
  "isActive BN_U64_MAX this =
     bindE BN_U64_MAX (\<lambda>U64_MAX.
     bindE (BN_number (deactivationSlot (state this))) (\<lambda>d.
     Inr (d = U64_MAX)))"

section \<open>Compact-array length codec\<close>

text \<open>
  Modelled from the spec: the compact-array length codec (section 4.1 of the spec),
  whose module is not among the sources. \<open>encodeLength\<close> writes a length as a base-128
  varint, seven data bits per byte, least significant group first, the top bit of a
  byte set when another byte follows. \<open>decodeLength bytes offset\<close> returns the length and
  the number of bytes consumed; it fails with \<open>MalformedLength\<close> when the chain of
  continuation bytes goes beyond three bytes, when the buffer ends inside the chain,
  or when the value needs more than 16 bits.
\<close>

datatype codec_error = MalformedLength | UnsupportedMessageVersion | MalformedMessage

fun encodeLength :: "nat \<Rightarrow> byte list" where
  "encodeLength n =
     (if n < 128 then [of_nat n]
      else of_nat (n mod 128 + 128) # encodeLength (n div 128))"

declare encodeLength.simps [simp del]

fun decodeChain :: "nat \<Rightarrow> byte list \<Rightarrow> codec_error + nat \<times> nat" where
  "decodeChain 0 bs = Inl MalformedLength"
| "decodeChain (Suc fuel) [] = Inl MalformedLength"
| "decodeChain (Suc fuel) (b # bs) =
     (if unat b < 128 then Inr (unat b, 1)
      else bindE (decodeChain fuel bs) (\<lambda>(v, consumed).
           Inr (unat b mod 128 + 128 * v, consumed + 1)))"

definition decodeLength :: "byte list \<Rightarrow> nat \<Rightarrow> codec_error + nat \<times> nat" where
  "decodeLength bytes offset =
     bindE (decodeChain 3 (drop offset bytes)) (\<lambda>(v, consumed).
     if v > 65535 then Inl MalformedLength else Inr (v, consumed))"

section \<open>Message codec\<close>

text \<open>
  Modelled from the spec: the compiled message and its codec (sections 3 and 4.4 of
  the spec), whose modules are not among the sources. A message is Legacy or V0. Its
  header is three bytes; an address and the blockhash are 32 bytes each; an index is
  one byte. A compact array is its length, encoded by \<open>encodeLength\<close>, followed by its
  items. A Legacy message is serialized as header, array of keys, blockhash, array of
  instructions; a V0 message as one byte with the high bit set and the version 0 in
  the low seven bits, then the same fields, then the array of address table lookups.
  \<open>deserializeMessage\<close> looks at the first byte: with the high bit set it reads a
  versioned message and fails with \<open>UnsupportedMessageVersion\<close> unless the version is 0;
  otherwise it reads a Legacy message. An array whose length exceeds the remaining
  bytes and a field cut short by the end of the buffer fail with \<open>MalformedMessage\<close>.
\<close>

record MessageHeader =
  numRequiredSignatures :: byte
  numReadonlySignedAccounts :: byte
  numReadonlyUnsignedAccounts :: byte

record CompiledInstruction =
  programIdIndex :: byte
  accountIndexes :: "byte list"
  data :: "byte list"

record AddressTableLookup =
  tableKey :: "byte list"
  writableIndexes :: "byte list"
  readonlyIndexes :: "byte list"

record MessageBody =
  header :: MessageHeader
  staticAccountKeys :: "byte list list"
  recentBlockhash :: "byte list"
  compiledInstructions :: "CompiledInstruction list"

datatype CompiledMessage = Legacy MessageBody | V0 MessageBody "AddressTableLookup list"

definition encodeArray :: "('a \<Rightarrow> byte list) \<Rightarrow> 'a list \<Rightarrow> byte list" where
  "encodeArray itemEncoder items =
     encodeLength (length items) @ concat (map itemEncoder items)"

definition encodeByte :: "byte \<Rightarrow> byte list" where
  "encodeByte b = [b]"

definition encodeHeader :: "MessageHeader \<Rightarrow> byte list" where
  "encodeHeader h =
     [numRequiredSignatures h, numReadonlySignedAccounts h, numReadonlyUnsignedAccounts h]"

definition encodeInstruction :: "CompiledInstruction \<Rightarrow> byte list" where
  "encodeInstruction i =
     programIdIndex i # encodeArray encodeByte (accountIndexes i) @ encodeArray encodeByte (data i)"

definition encodeLookup :: "AddressTableLookup \<Rightarrow> byte list" where
  "encodeLookup l =
     tableKey l @ encodeArray encodeByte (writableIndexes l) @
     encodeArray encodeByte (readonlyIndexes l)"

definition encodeBody :: "MessageBody \<Rightarrow> byte list" where
  "encodeBody m =
     encodeHeader (header m) @ encodeArray (\<lambda>k. k) (staticAccountKeys m) @
     recentBlockhash m @ encodeArray encodeInstruction (compiledInstructions m)"

fun serializeMessage :: "CompiledMessage \<Rightarrow> byte list" where
  "serializeMessage (Legacy m) = encodeBody m"
| "serializeMessage (V0 m lookups) = 128 # encodeBody m @ encodeArray encodeLookup lookups"

type_synonym 'a decoder = "byte list \<Rightarrow> codec_error + 'a \<times> byte list"

definition decodeBytes :: "nat \<Rightarrow> (byte list) decoder" where
  "decodeBytes n bs =
     (if length bs < n then Inl MalformedMessage else Inr (take n bs, drop n bs))"

definition decodeByte :: "byte decoder" where
  "decodeByte bs = (case bs of [] \<Rightarrow> Inl MalformedMessage | b # rest \<Rightarrow> Inr (b, rest))"

fun decodeItems :: "'a decoder \<Rightarrow> nat \<Rightarrow> ('a list) decoder" where
  "decodeItems itemDecoder 0 bs = Inr ([], bs)"
| "decodeItems itemDecoder (Suc n) bs =
     bindE (itemDecoder bs) (\<lambda>(x, rest).
     bindE (decodeItems itemDecoder n rest) (\<lambda>(xs, rest').
     Inr (x # xs, rest')))"

definition decodeArray :: "'a decoder \<Rightarrow> ('a list) decoder" where
  "decodeArray itemDecoder bs =
     bindE (decodeLength bs 0) (\<lambda>(n, consumed).
     if length (drop consumed bs) < n then Inl MalformedMessage
     else decodeItems itemDecoder n (drop consumed bs))"

definition decodeHeader :: "MessageHeader decoder" where
  "decodeHeader bs =
     bindE (decodeByte bs) (\<lambda>(s, r1).
     bindE (decodeByte r1) (\<lambda>(rs, r2).
     bindE (decodeByte r2) (\<lambda>(ru, r3).
     Inr (\<lparr>numRequiredSignatures = s, numReadonlySignedAccounts = rs,
           numReadonlyUnsignedAccounts = ru\<rparr>, r3))))"

definition decodeInstruction :: "CompiledInstruction decoder" where
  "decodeInstruction bs =
     bindE (decodeByte bs) (\<lambda>(p, r1).
     bindE (decodeArray decodeByte r1) (\<lambda>(a, r2).
     bindE (decodeArray decodeByte r2) (\<lambda>(d, r3).
     Inr (\<lparr>programIdIndex = p, accountIndexes = a, data = d\<rparr>, r3))))"

definition decodeLookup :: "AddressTableLookup decoder" where
  "decodeLookup bs =
     bindE (decodeBytes 32 bs) (\<lambda>(k, r1).
     bindE (decodeArray decodeByte r1) (\<lambda>(w, r2).
     bindE (decodeArray decodeByte r2) (\<lambda>(ro, r3).
     Inr (\<lparr>tableKey = k, writableIndexes = w, readonlyIndexes = ro\<rparr>, r3))))"

definition decodeBody :: "MessageBody decoder" where
  "decodeBody bs =
     bindE (decodeHeader bs) (\<lambda>(h, r1).
     bindE (decodeArray (decodeBytes 32) r1) (\<lambda>(keys, r2).
     bindE (decodeBytes 32 r2) (\<lambda>(bh, r3).
     bindE (decodeArray decodeInstruction r3) (\<lambda>(ins, r4).
     Inr (\<lparr>header = h, staticAccountKeys = keys, recentBlockhash = bh,
           compiledInstructions = ins\<rparr>, r4)))))"

definition deserializeMessage :: "byte list \<Rightarrow> codec_error + CompiledMessage" where
  "deserializeMessage bytes =
     (case bytes of
        [] \<Rightarrow> Inl MalformedMessage
      | b # rest \<Rightarrow>
          if 128 \<le> unat b then
            (if unat b mod 128 \<noteq> 0 then Inl UnsupportedMessageVersion
             else bindE (decodeBody rest) (\<lambda>(m, r).
                  bindE (decodeArray decodeLookup r) (\<lambda>(lookups, r').
                  Inr (V0 m lookups))))
          else bindE (decodeBody bytes) (\<lambda>(m, r). Inr (Legacy m)))"

text \<open>
  The messages of the data model: every address and the blockhash have 32 bytes and
  every sequence has at most 65535 items, the range of the length codec.
  \<open>legacy_signers_fit\<close> holds of a Legacy message whose count of required signatures
  is below 128, so that the first byte of its serialization has the high bit clear.
\<close>

definition wf_instruction :: "CompiledInstruction \<Rightarrow> bool" where
  "wf_instruction i \<longleftrightarrow> length (accountIndexes i) \<le> 65535 \<and> length (data i) \<le> 65535"

definition wf_lookup :: "AddressTableLookup \<Rightarrow> bool" where
  "wf_lookup l \<longleftrightarrow>
     length (tableKey l) = 32 \<and> length (writableIndexes l) \<le> 65535 \<and>
     length (readonlyIndexes l) \<le> 65535"

definition wf_body :: "MessageBody \<Rightarrow> bool" where
  "wf_body m \<longleftrightarrow>
     length (staticAccountKeys m) \<le> 65535 \<and>
     list_all (\<lambda>k. length k = 32) (staticAccountKeys m) \<and>
     length (recentBlockhash m) = 32 \<and>
     length (compiledInstructions m) \<le> 65535 \<and>
     list_all wf_instruction (compiledInstructions m)"

fun wf_message :: "CompiledMessage \<Rightarrow> bool" where
  "wf_message (Legacy m) \<longleftrightarrow> wf_body m"
| "wf_message (V0 m lookups) \<longleftrightarrow>
     wf_body m \<and> length lookups \<le> 65535 \<and> list_all wf_lookup lookups"

fun legacy_signers_fit :: "CompiledMessage \<Rightarrow> bool" where
  "legacy_signers_fit (Legacy m) \<longleftrightarrow> unat (numRequiredSignatures (header m)) < 128"
| "legacy_signers_fit (V0 m lookups) \<longleftrightarrow> True"

text \<open>
  Example messages: a Legacy message signed by 128 accounts (a payer and one
  instruction with 127 more signers); a V0 message with one instruction and one
  lookup; a Legacy message with the payer alone and no instruction; and the bytes of
  a Legacy message without keys whose key count is written in two bytes instead of one.
\<close>

definition many_signers_message :: CompiledMessage where
  "many_signers_message =
     Legacy \<lparr>header = \<lparr>numRequiredSignatures = 128, numReadonlySignedAccounts = 0,
                         numReadonlyUnsignedAccounts = 1\<rparr>,
             staticAccountKeys = map (\<lambda>i. replicate 31 0 @ [of_nat i]) [0..<129],
             recentBlockhash = replicate 32 7,
             compiledInstructions =
               [\<lparr>programIdIndex = 128, accountIndexes = map of_nat [1..<128], data = []\<rparr>]\<rparr>"

definition transfer_message :: "CompiledMessage" where
  "transfer_message =
     V0 \<lparr>header = \<lparr>numRequiredSignatures = 1, numReadonlySignedAccounts = 0,
                     numReadonlyUnsignedAccounts = 1\<rparr>,
         staticAccountKeys = [replicate 32 1, replicate 32 2],
         recentBlockhash = replicate 32 7,
         compiledInstructions =
           [\<lparr>programIdIndex = 1, accountIndexes = [0, 2], data = [2, 0, 0, 0]\<rparr>]\<rparr>
      [\<lparr>tableKey = replicate 32 9, writableIndexes = [4], readonlyIndexes = []\<rparr>]"

definition minimal_legacy_message :: CompiledMessage where
  "minimal_legacy_message =
     Legacy \<lparr>header = \<lparr>numRequiredSignatures = 1, numReadonlySignedAccounts = 0,
                         numReadonlyUnsignedAccounts = 0\<rparr>,
             staticAccountKeys = [replicate 32 1],
             recentBlockhash = replicate 32 7,
             compiledInstructions = []\<rparr>"

definition padded_length_bytes :: "byte list" where
  "padded_length_bytes = [1, 0, 0, 128, 0] @ replicate 32 7 @ [0]"

section \<open>The decoded values in closed form\<close>

text \<open>
  What the metadata layout and \<open>deserialize\<close> compute when they succeed, written as
  direct reads of the input bytes. The lemmas below relate them to the code.
\<close>

definition meta_of :: "Uint8Array \<Rightarrow> LookupTableMeta" where
  "meta_of b =
     \<lparr>meta_typeIndex = le_value (take 4 b),
      meta_deactivationSlot =
        roundedInt64 (le_value (take 4 (drop 8 b))) (le_value (take 4 (drop 4 b))),
      meta_lastExtendedSlot =
        roundedInt64 (le_value (take 4 (drop 16 b))) (le_value (take 4 (drop 12 b))),
      meta_lastExtendedStartIndex = unat (b ! 20),
      meta_authority = map (\<lambda>i. take 32 (drop (22 + 32 * i) b)) [0..<unat (b ! 21)]\<rparr>"

definition state_of :: "Uint8Array \<Rightarrow> AddressLookupTableState" where
  "state_of b =
     \<lparr>deactivationSlot = meta_deactivationSlot (meta_of b),
      lastExtendedSlot = meta_lastExtendedSlot (meta_of b),
      lastExtendedSlotStartIndex = meta_lastExtendedStartIndex (meta_of b),
      authority = (if b ! 21 = 0 then None else Some (PublicKey (take 32 (drop 22 b)))),
      addresses =
        map (\<lambda>i. PublicKey (take 32 (drop (56 + 32 * i) b))) [0..<(length b - 56) div 32]\<rparr>"

text \<open>
  The result of \<open>getMinNumSignatures\<close> as a function of the exact quotient of the data
  length by the chunk size.
\<close>

definition signatures :: "rat \<Rightarrow> rat" where
  "signatures x = double_mul 2 (double_add (double_add (Math_ceil (double x)) 1) 1)"

section \<open>Example accounts\<close>

text \<open>
  An active table without authority or addresses; the same account with the
  deactivation slot \<open>2 ^ 64 - 2\<close>; an account of 56 zero bytes; an active table with an
  authority and one address.
\<close>

definition active_table :: Uint8Array where
  "active_table =
     [1, 0, 0, 0, 255, 255, 255, 255, 255, 255, 255, 255, 0, 0, 0, 0, 0, 0, 0, 0, 0, 0]
     @ replicate 34 0"

definition deactivated_table :: Uint8Array where
  "deactivated_table =
     [1, 0, 0, 0, 254, 255, 255, 255, 255, 255, 255, 255, 0, 0, 0, 0, 0, 0, 0, 0, 0, 0]
     @ replicate 34 0"

definition uninitialized_table :: Uint8Array where
  "uninitialized_table = [0, 0, 0, 0] @ replicate 52 0"

definition owned_table :: Uint8Array where
  "owned_table =
     [1, 0, 0, 0, 255, 255, 255, 255, 255, 255, 255, 255, 5, 0, 0, 0, 0, 0, 0, 0, 7, 1]
     @ replicate 32 9 @ [0, 0] @ replicate 32 3"

section \<open>Properties of makeWebsocketUrl\<close>

lemma startsWith_prefix: "startsWith s p \<longleftrightarrow> prefix p s"
  by (auto simp: startsWith_def prefix_def)
    (metis append_take_drop_id)

text \<open>
  Claim C8. \<open>makeWebsocketUrl\<close> throws exactly when the endpoint does not start with
  \<^verbatim>\<open>https://\<close>; otherwise it returns the endpoint with the leading \<^verbatim>\<open>https:\<close> (six
  characters) replaced by \<^verbatim>\<open>wss:\<close> and everything after it unchanged.
\<close>

theorem makeWebsocketUrl_throws_iff:
  "(isl (makeWebsocketUrl endpoint) \<longleftrightarrow> \<not> prefix ''https://'' endpoint) \<and>
   (prefix ''https://'' endpoint \<longrightarrow>
      makeWebsocketUrl endpoint = Inr (''wss:'' @ drop 6 endpoint))"
proof (cases "prefix ''https://'' endpoint")
  case True
  then obtain rest where "endpoint = ''https://'' @ rest"
    by (auto simp: prefix_def)
  then show ?thesis
    by (simp add: makeWebsocketUrl_def replace_anchored_def startsWith_def)
next
  case False
  then show ?thesis
    by (simp add: makeWebsocketUrl_def startsWith_prefix)
qed

theorem makeWebsocketUrl_throws_iff_witness:
  "prefix ''https://'' ''https://api.devnet.solana.com'' \<and>
   makeWebsocketUrl ''https://api.devnet.solana.com'' = Inr ''wss://api.devnet.solana.com'' \<and>
   \<not> prefix ''https://'' ''http://localhost:8899'' \<and>
   isl (makeWebsocketUrl ''http://localhost:8899'')"
  using makeWebsocketUrl_throws_iff [of "''https://api.devnet.solana.com''"]
    makeWebsocketUrl_throws_iff [of "''http://localhost:8899''"]
  by simp

section \<open>Properties of the loader\<close>

text \<open>
  Claim C3. \<open>Loader.chunkSize\<close> is the packet size ceiling minus 300: the headroom
  between the two is the constant 300 whatever the ceiling is, and nothing else
  enters the computation.
\<close>

theorem chunkSize_headroom:
  "chunkSize PACKET_DATA_SIZE = PACKET_DATA_SIZE - 300 \<and>
   PACKET_DATA_SIZE - chunkSize PACKET_DATA_SIZE = 300"
  by (simp add: chunkSize_def CHUNK_SIZE_def)

theorem chunkSize_headroom_witness:
  "chunkSize 1232 = 932 \<and> 1232 - chunkSize 1232 = 300"
  using chunkSize_headroom [of 1232] by simp

section \<open>Rounding lemmas\<close>

lemma bit_length_bounds:
  "0 < n \<Longrightarrow> 2 ^ (bit_length n - 1) \<le> n \<and> n < 2 ^ bit_length n"
proof (induction n rule: bit_length.induct)
  case (1 n)
  show ?case
  proof (cases "n div 2 = 0")
    case True
    with "1.prems" have "n = 1" by (simp add: div_eq_0_iff) 
    then show ?thesis by (simp add: bit_length.simps)
  next
    case False
    then have pos: "0 < n div 2" by simp
    from "1.prems" have n0: "n \<noteq> 0" by simp
    from "1.IH" [OF n0 pos]
    have lo: "2 ^ (bit_length (n div 2) - 1) \<le> n div 2"
      and hi: "n div 2 < 2 ^ bit_length (n div 2)" by simp_all
    have bl: "bit_length n = Suc (bit_length (n div 2))"
      using n0 by (subst bit_length.simps) simp
    have blpos: "0 < bit_length (n div 2)"
      using pos by (subst bit_length.simps) simp
    then have "(2::nat) ^ bit_length (n div 2) = 2 * 2 ^ (bit_length (n div 2) - 1)"
      by (cases "bit_length (n div 2)") simp_all
    with lo have "2 ^ bit_length (n div 2) \<le> 2 * (n div 2)" by simp
    also have "\<dots> \<le> n" by simp
    finally have a: "2 ^ (bit_length n - 1) \<le> n" by (simp add: bl)
    from hi have "n div 2 + 1 \<le> 2 ^ bit_length (n div 2)" by simp
    then have "2 * (n div 2 + 1) \<le> 2 * 2 ^ bit_length (n div 2)" by simp
    moreover have "n < 2 * (n div 2 + 1)" by simp
    ultimately have "n < 2 ^ bit_length n" by (simp add: bl)
    with a show ?thesis by simp
  qed
qed

lemma bit_length_powi:
  assumes "0 < (a::int)"
  shows "2 powi (int (bit_length (nat a)) - 1) \<le> rat_of_int a"
    and "rat_of_int a < 2 powi int (bit_length (nat a))"
proof -
  let ?n = "nat a"
  from assms have n: "0 < ?n" by simp
  from bit_length_bounds [OF n]
  have lo: "2 ^ (bit_length ?n - 1) \<le> ?n" and hi: "?n < 2 ^ bit_length ?n" by simp_all
  have blpos: "0 < bit_length ?n"
    using n by (subst bit_length.simps) simp
  then have e: "int (bit_length ?n) - 1 = int (bit_length ?n - 1)" by simp
  have a: "rat_of_int a = of_nat ?n" using assms by simp
  from lo have "(of_nat (2 ^ (bit_length ?n - 1)) :: rat) \<le> of_nat ?n"
    by (simp only: of_nat_le_iff)
  then show "2 powi (int (bit_length (nat a)) - 1) \<le> rat_of_int a"
    by (simp only: e a power_int_of_nat) simp
  from hi have "(of_nat ?n :: rat) < of_nat (2 ^ bit_length ?n)"
    by (simp only: of_nat_less_iff)
  then show "rat_of_int a < 2 powi int (bit_length (nat a))"
    by (simp only: a power_int_of_nat) simp
qed

lemma powi2_add: "(2::rat) powi (m + n) = 2 powi m * 2 powi n"
  by (rule power_int_add) simp

lemma shift_range:
  assumes "0 < x"
  shows "2 ^ 52 \<le> x * 2 powi significand_shift x"
    and "x * 2 powi significand_shift x < 2 ^ 53"
proof -
  obtain a c where q: "quotient_of x = (a, c)" by (cases "quotient_of x")
  then have c: "0 < c" and x: "x = rat_of_int a / rat_of_int c"
    by (simp_all add: quotient_of_denom_pos quotient_of_div)
  from assms x c have a: "0 < a"
    by (simp add: zero_less_divide_iff)
  define al where "al = int (bit_length (nat a))"
  define ga where "ga = int (bit_length (nat c))"
  define s0 where "s0 = 53 - al + ga"
  define P where "P = (2::rat) powi s0"
  have P: "0 < P" by (simp add: P_def)
  have cr: "0 < rat_of_int c" using c by simp
  have A: "2 powi (al - 1) \<le> rat_of_int a" "rat_of_int a < 2 powi al"
    unfolding al_def by (rule bit_length_powi [OF a])+
  have C: "2 powi (ga - 1) \<le> rat_of_int c" "rat_of_int c < 2 powi ga"
    unfolding ga_def by (rule bit_length_powi [OF c])+
  have e1: "52 + ga = (al - 1) + s0" and e2: "al + s0 = 54 + (ga - 1)"
    by (simp_all add: s0_def)
  have "2 ^ 52 * rat_of_int c < 2 ^ 52 * 2 powi ga"
    using C(2) by simp
  also have "\<dots> = 2 powi 52 * 2 powi ga" by simp
  also have "\<dots> = 2 powi (52 + ga)"
    by (simp only: powi2_add)
  also have "\<dots> = 2 powi (al - 1) * P"
    by (simp only: e1 powi2_add P_def)
  also have "\<dots> \<le> rat_of_int a * P"
    using A(1) P by (simp add: mult_right_mono)
  finally have lo: "2 ^ 52 * rat_of_int c < rat_of_int a * P" .
  have "rat_of_int a * P < 2 powi al * P"
    using A(2) P by (simp add: mult_strict_right_mono)
  also have "\<dots> = 2 powi (54 + (ga - 1))"
    by (simp only: P_def e2 flip: powi2_add)
  also have "\<dots> = 2 powi 54 * 2 powi (ga - 1)"
    by (simp only: powi2_add)
  also have "\<dots> = 2 ^ 54 * 2 powi (ga - 1)" by simp
  also have "\<dots> \<le> 2 ^ 54 * rat_of_int c"
    using C(1) by simp
  finally have hi: "rat_of_int a * P < 2 ^ 54 * rat_of_int c" .
  have xP: "x * P = rat_of_int a * P / rat_of_int c"
    by (simp add: x)
  from lo cr have lo': "2 ^ 52 < x * P"
    by (simp add: xP pos_less_divide_eq)
  from hi cr have hi': "x * P < 2 ^ 54"
    by (simp add: xP pos_divide_less_eq)
  have half: "x * 2 powi (s0 - 1) = x * P / 2"
    by (simp add: power_int_diff P_def)
  have s: "significand_shift x = (if x * P < 2 ^ 53 then s0 else s0 - 1)"
    by (simp add: significand_shift_def q Let_def P_def s0_def al_def ga_def)
  show "2 ^ 52 \<le> x * 2 powi significand_shift x"
    using lo' by (simp add: s half) (simp add: P_def)
  show "x * 2 powi significand_shift x < 2 ^ 53"
    using hi' by (simp add: s half) (simp add: P_def)
qed

lemma shift_unique:
  assumes "0 < x" and "2 ^ 52 \<le> x * 2 powi s" and "x * 2 powi s < 2 ^ 53"
  shows "significand_shift x = s"
proof -
  let ?t = "significand_shift x"
  have ge: "2 powi n \<ge> 2 * (2::rat) powi m" if "m < n" for m n :: int
  proof -
    from that have "m + 1 \<le> n" by simp
    then have "(2::rat) powi (m + 1) \<le> 2 powi n"
      by (rule power_int_increasing) simp
    then show ?thesis by (simp add: powi2_add)
  qed
  have False if "s < ?t"
  proof -
    from ge [OF that] assms(1) have "x * (2 * 2 powi s) \<le> x * 2 powi ?t"
      by (simp add: mult_left_mono)
    with assms(2) shift_range(2) [OF assms(1)] show False by simp
  qed
  moreover have False if "?t < s"
  proof -
    from ge [OF that] assms(1) have "x * (2 * 2 powi ?t) \<le> x * 2 powi s"
      by (simp add: mult_left_mono)
    with assms(3) shift_range(1) [OF assms(1)] show False by simp
  qed
  ultimately show ?thesis by (cases "s < ?t"; cases "?t < s") auto
qed

lemma round_half_even_int [simp]: "round_half_even (of_int j) = j"
  by (simp add: round_half_even_def)

lemma round_half_even_ge_floor: "\<lfloor>y\<rfloor> \<le> round_half_even y"
  by (simp add: round_half_even_def Let_def)

lemma round_half_even_le_floor1: "round_half_even y \<le> \<lfloor>y\<rfloor> + 1"
  by (simp add: round_half_even_def Let_def)

lemma round_half_even_up:
  "1 / 2 < y - of_int \<lfloor>y\<rfloor> \<Longrightarrow> round_half_even y = \<lfloor>y\<rfloor> + 1"
  by (simp add: round_half_even_def Let_def)

lemma round_half_even_le_int:
  assumes "y \<le> of_int j"
  shows "round_half_even y \<le> j"
proof (cases "y = of_int j")
  case True
  then show ?thesis by simp
next
  case False
  with assms have "y < of_int j" by simp
  then have "\<lfloor>y\<rfloor> < j" by (simp add: floor_less_iff)
  with round_half_even_le_floor1 [of y] show ?thesis by simp
qed

lemma round_half_even_ge_int:
  assumes "of_int j \<le> y"
  shows "j \<le> round_half_even y"
proof -
  from assms have "j \<le> \<lfloor>y\<rfloor>" by (simp add: le_floor_iff)
  with round_half_even_ge_floor [of y] show ?thesis by simp
qed

lemma round_half_even_mono:
  assumes "y \<le> z"
  shows "round_half_even y \<le> round_half_even z"
proof (cases "\<lfloor>y\<rfloor> = \<lfloor>z\<rfloor>")
  case False
  with assms have "\<lfloor>y\<rfloor> < \<lfloor>z\<rfloor>"
    using floor_mono [OF assms] by simp
  with round_half_even_le_floor1 [of y] round_half_even_ge_floor [of z]
  show ?thesis by simp
next
  case True
  with assms have "y - of_int \<lfloor>y\<rfloor> \<le> z - of_int \<lfloor>z\<rfloor>" by simp
  with True show ?thesis
    by (auto simp: round_half_even_def Let_def)
qed

lemma double_pos_def:
  "0 < x \<Longrightarrow>
   double x = of_int (round_half_even (x * 2 powi significand_shift x)) /
     2 powi significand_shift x"
  by (simp add: double_def Let_def)

lemma double_exact:
  assumes "0 < x" and "x * 2 powi significand_shift x = of_int j"
  shows "double x = x"
proof -
  have "double x = x * 2 powi significand_shift x / 2 powi significand_shift x"
    by (simp add: double_pos_def [OF assms(1)] assms(2))
  then show ?thesis by simp
qed

lemma double_nonneg: "0 \<le> x \<Longrightarrow> 0 \<le> double x"
proof (cases "x = 0")
  case True
  then show ?thesis by (simp add: double_def)
next
  case False
  assume "0 \<le> x"
  with False have x: "0 < x" by simp
  from shift_range(1) [OF x] have "of_int 0 \<le> x * 2 powi significand_shift x" by simp
  then have "0 \<le> round_half_even (x * 2 powi significand_shift x)"
    by (rule round_half_even_ge_int)
  then show ?thesis
    by (simp add: double_pos_def [OF x])
qed

lemma double_lower:
  assumes "0 < x"
  shows "2 ^ 52 / 2 powi significand_shift x \<le> double x"
proof -
  from shift_range(1) [OF assms]
  have "of_int (2 ^ 52) \<le> x * 2 powi significand_shift x" by simp
  then have "2 ^ 52 \<le> round_half_even (x * 2 powi significand_shift x)"
    by (rule round_half_even_ge_int)
  then have "(2::rat) ^ 52 \<le> of_int (round_half_even (x * 2 powi significand_shift x))"
    by (metis of_int_le_iff of_int_numeral of_int_power)
  then show ?thesis
    by (simp add: double_pos_def [OF assms] divide_right_mono)
qed

lemma double_upper:
  assumes "0 < x"
  shows "double x \<le> 2 ^ 53 / 2 powi significand_shift x"
proof -
  from shift_range(2) [OF assms]
  have "x * 2 powi significand_shift x \<le> of_int (2 ^ 53)" by simp
  then have "round_half_even (x * 2 powi significand_shift x) \<le> 2 ^ 53"
    by (rule round_half_even_le_int)
  then have "of_int (round_half_even (x * 2 powi significand_shift x)) \<le> (2::rat) ^ 53"
    by (metis of_int_le_iff of_int_numeral of_int_power)
  then show ?thesis
    by (simp add: double_pos_def [OF assms] divide_right_mono)
qed

lemma shift_antimono:
  assumes "0 < x" and "x \<le> y"
  shows "significand_shift y \<le> significand_shift x"
proof (rule ccontr)
  assume "\<not> significand_shift y \<le> significand_shift x"
  then have "significand_shift x + 1 \<le> significand_shift y" by simp
  then have "(2::rat) powi (significand_shift x + 1) \<le> 2 powi significand_shift y"
    by (rule power_int_increasing) simp
  then have "2 * 2 powi significand_shift x \<le> (2::rat) powi significand_shift y"
    by (simp add: powi2_add)
  with assms(1) have "x * (2 * 2 powi significand_shift x) \<le> x * 2 powi significand_shift y"
    by (simp add: mult_left_mono)
  also have "\<dots> \<le> y * 2 powi significand_shift y"
    using assms(2) by (simp add: mult_right_mono)
  finally have "2 * (x * 2 powi significand_shift x) \<le> y * 2 powi significand_shift y"
    by (simp add: mult_ac)
  moreover from assms have "0 < y" by simp
  ultimately show False
    using shift_range(1) [OF assms(1)] shift_range(2) [of y] by simp
qed

lemma double_mono:
  assumes "0 \<le> x" and "x \<le> y"
  shows "double x \<le> double y"
proof (cases "x = 0")
  case True
  with assms double_nonneg [of y] show ?thesis by (simp add: double_def)
next
  case False
  with assms have x: "0 < x" and y: "0 < y" by simp_all
  let ?s = "significand_shift x" and ?t = "significand_shift y"
  from shift_antimono [OF x assms(2)] have ts: "?t \<le> ?s" .
  show ?thesis
  proof (cases "?t = ?s")
    case True
    have "x * 2 powi ?s \<le> y * 2 powi ?s"
      using assms(2) by (simp add: mult_right_mono)
    then have "round_half_even (x * 2 powi ?s) \<le> round_half_even (y * 2 powi ?s)"
      by (rule round_half_even_mono)
    then show ?thesis
      by (simp add: double_pos_def [OF x] double_pos_def [OF y] True divide_right_mono)
  next
    case False
    with ts have "?t + 1 \<le> ?s" by simp
    then have "(2::rat) powi (?t + 1) \<le> 2 powi ?s"
      by (rule power_int_increasing) simp
    then have p: "2 * 2 powi ?t \<le> (2::rat) powi ?s"
      by (simp add: powi2_add)
    have "double x \<le> 2 ^ 53 / 2 powi ?s" by (rule double_upper [OF x])
    also have "\<dots> \<le> 2 ^ 53 / (2 * 2 powi ?t)"
      by (rule divide_left_mono [OF p]) simp_all
    also have "\<dots> = 2 ^ 52 / 2 powi ?t" by simp
    also have "\<dots> \<le> double y" by (rule double_lower [OF y])
    finally show ?thesis .
  qed
qed

lemma powi2_nat: "0 \<le> s \<Longrightarrow> (2::rat) powi s = of_int (2 ^ nat s)"
  by (simp add: power_int_def)

lemma powi2_neg: "s < 0 \<Longrightarrow> 1 / (2::rat) powi s = of_int (2 ^ nat (- s))"
  by (simp add: power_int_def field_simps)

lemma shift_ge:
  assumes "0 < x" and "x < 2 powi (53 + k)"
  shows "- k \<le> significand_shift x"
proof (rule ccontr)
  assume "\<not> - k \<le> significand_shift x"
  then have "significand_shift x \<le> - 1 - k" by simp
  then have "(2::rat) powi significand_shift x \<le> 2 powi (- 1 - k)"
    by (rule power_int_increasing) simp
  with assms(1) have "x * 2 powi significand_shift x \<le> x * 2 powi (- 1 - k)"
    by (simp add: mult_left_mono)
  also have "\<dots> < 2 powi (53 + k) * 2 powi (- 1 - k)"
    using assms(2) by (simp add: mult_strict_right_mono)
  also have "\<dots> = 2 powi ((53 + k) + (- 1 - k))"
    by (simp only: powi2_add)
  also have "\<dots> = 2 ^ 52" by simp
  finally show False
    using shift_range(1) [OF assms(1)] by simp
qed

lemma double_exact_scaled:
  assumes "0 < j" and "j = 2 ^ k * i" and "j < 2 ^ (53 + k)"
  shows "double (rat_of_int j) = rat_of_int j"
proof -
  let ?x = "rat_of_int j" and ?s = "significand_shift (rat_of_int j)"
  have x: "0 < ?x" using assms(1) by simp
  have "?x < of_int (2 ^ (53 + k))"
    using assms(3) by (simp only: of_int_less_iff)
  then have "?x < 2 powi (53 + int k)"
    by (simp add: power_int_def nat_add_distrib)
  from shift_ge [OF x this] have "0 \<le> ?s + int k" by simp
  then have p: "(2::rat) powi (?s + int k) = of_int (2 ^ nat (?s + int k))"
    by (rule powi2_nat)
  have "?x * 2 powi ?s = rat_of_int i * (2 powi int k * 2 powi ?s)"
    by (simp add: assms(2))
  also have "\<dots> = rat_of_int i * 2 powi (?s + int k)"
    by (simp only: powi2_add mult.commute)
  also have "\<dots> = of_int (i * 2 ^ nat (?s + int k))"
    by (simp only: p of_int_mult)
  finally show ?thesis
    by (rule double_exact [OF x])
qed

lemma double_exact_int:
  assumes "0 \<le> j" and "j < 2 ^ 53"
  shows "double (rat_of_int j) = rat_of_int j"
proof (cases "j = 0")
  case True
  then show ?thesis by (simp add: double_def)
next
  case False
  with assms have "0 < j" by simp
  with assms(2) show ?thesis
    using double_exact_scaled [of j 0 j] by simp
qed

lemma double_of_int:
  assumes "0 \<le> j"
  shows "\<exists>i. double (rat_of_int j) = rat_of_int i \<and> (even j \<longrightarrow> even i)"
proof (cases "j = 0")
  case True
  then show ?thesis by (auto simp: double_def intro: exI [of _ 0])
next
  case False
  with assms have j: "0 < j" by simp
  let ?x = "rat_of_int j" and ?s = "significand_shift (rat_of_int j)"
  have x: "0 < ?x" using j by simp
  show ?thesis
  proof (cases "0 \<le> ?s")
    case True
    have "?x * 2 powi ?s = of_int (j * 2 ^ nat ?s)"
      by (simp add: powi2_nat [OF True])
    then have "double ?x = ?x" by (rule double_exact [OF x])
    then show ?thesis by blast
  next
    case False
    then have neg: "?s < 0" by simp
    let ?m = "round_half_even (?x * 2 powi ?s)"
    have "double ?x = of_int ?m * (1 / 2 powi ?s)"
      by (simp add: double_pos_def [OF x])
    also have "\<dots> = of_int (?m * 2 ^ nat (- ?s))"
      by (simp only: powi2_neg [OF neg] of_int_mult)
    finally have d: "double ?x = rat_of_int (?m * 2 ^ nat (- ?s))" .
    from neg have "0 < nat (- ?s)" by simp
    then have "even (?m * 2 ^ nat (- ?s))" by simp
    with d show ?thesis by blast
  qed
qed

lemma ceiling_double_quotient:
  assumes a: "0 \<le> a" "a < 2 ^ 53" and c: "0 < c"
  shows "\<lceil>double (rat_of_int a / rat_of_int c)\<rceil> = \<lceil>rat_of_int a / rat_of_int c\<rceil>"
proof (cases "a = 0")
  case True
  then show ?thesis by (simp add: double_def)
next
  case False
  with a have apos: "0 < a" by simp
  define x where "x = rat_of_int a / rat_of_int c"
  define q where "q = \<lceil>x\<rceil>"
  define s where "s = significand_shift x"
  define P where "P = (2::int) ^ nat s"
  have cr: "0 < rat_of_int c" and ar: "0 < rat_of_int a" using c apos by simp_all
  have x: "0 < x" using apos c by (simp add: x_def)
  have xc: "x * rat_of_int c = rat_of_int a"
    using cr by (simp add: x_def)
  have "rat_of_int 1 \<le> rat_of_int c" using c by simp
  then have "x * 1 \<le> x * rat_of_int c" using x by (simp add: mult_left_mono)
  then have "x \<le> rat_of_int a" by (simp add: xc)
  also have a53: "rat_of_int a < rat_of_int (2 ^ 53)" using a(2) by (simp only: of_int_less_iff)
  finally have "x < 2 powi (53 + 0)" by simp
  from shift_ge [OF x this] have s: "0 \<le> s" by (simp add: s_def)
  have P: "(2::rat) powi s = of_int P" "0 < P"
    by (simp_all add: P_def powi2_nat [OF s])
  have Pr: "0 < rat_of_int P" using P(2) by simp
  have dbl: "double x = of_int (round_half_even (x * of_int P)) / of_int P"
    by (simp add: double_pos_def [OF x] P(1) flip: s_def)
  have xq: "x \<le> of_int q" and q1: "of_int (q - 1) < x"
    unfolding q_def using ceiling_correct [of x] by simp_all
  have up: "round_half_even (x * of_int P) \<le> q * P"
  proof (rule round_half_even_le_int)
    have "0 \<le> rat_of_int P" using Pr by simp
    with xq have "x * of_int P \<le> of_int q * of_int P"
      by (rule mult_right_mono)
    then show "x * of_int P \<le> of_int (q * P)" by simp
  qed
  have lo: "(q - 1) * P < round_half_even (x * of_int P)"
  proof (cases "x = of_int q")
    case True
    then have "x * of_int P = of_int (q * P)" by simp
    then have "round_half_even (x * of_int P) = q * P"
      by (simp only: round_half_even_int)
    with P(2) show ?thesis by (simp add: algebra_simps)
  next
    case False
    define r where "r = a - (q - 1) * c"
    have "rat_of_int (q - 1) * rat_of_int c < x * rat_of_int c"
      using q1 cr by (rule mult_strict_right_mono)
    then have "rat_of_int ((q - 1) * c) < rat_of_int a"
      by (simp only: xc of_int_mult)
    then have "(q - 1) * c < a" by (simp only: of_int_less_iff)
    then have r: "1 \<le> r" by (simp add: r_def)
    have ra: "rat_of_int a = rat_of_int (q - 1) * rat_of_int c + rat_of_int r"
      by (simp add: r_def)
    have big: "2 ^ 52 \<le> x * of_int P"
      using shift_range(1) [OF x] by (simp add: P(1) flip: s_def)
    define t where "t = rat_of_int P / rat_of_int c"
    have Pc: "x * rat_of_int P = rat_of_int a * t"
      by (simp add: x_def t_def)
    from a53 have "rat_of_int a * (1 / 2) < 2 ^ 52" by simp
    also note big
    finally have "rat_of_int a * (1 / 2) < rat_of_int a * t"
      by (simp only: Pc)
    then have h: "1 / 2 < t"
      using ar by (simp only: mult_less_cancel_left_pos)
    then have t0: "0 \<le> t" by simp
    have "1 \<le> rat_of_int r" using r by simp
    then have "1 * t \<le> rat_of_int r * t"
      using t0 by (rule mult_right_mono)
    then have "t \<le> rat_of_int r * t" by simp
    with h have half: "1 / 2 < rat_of_int r * t" by (rule less_le_trans)
    have ct: "rat_of_int c * t = rat_of_int P"
      using cr by (simp add: t_def)
    have "x * rat_of_int P = (rat_of_int (q - 1) * rat_of_int c + rat_of_int r) * t"
      by (simp only: Pc ra)
    also have "\<dots> = rat_of_int (q - 1) * (rat_of_int c * t) + rat_of_int r * t"
      by (simp only: distrib_right mult.assoc)
    also have "\<dots> = rat_of_int ((q - 1) * P) + rat_of_int r * t"
      by (simp only: ct of_int_mult)
    finally have y: "x * of_int P = rat_of_int ((q - 1) * P) + rat_of_int r * t" .
    have "of_int ((q - 1) * P) \<le> x * of_int P"
      using half by (simp only: y)
    then have fl: "(q - 1) * P \<le> \<lfloor>x * of_int P\<rfloor>" by (simp only: le_floor_iff)
    show ?thesis
    proof (cases "(q - 1) * P = \<lfloor>x * of_int P\<rfloor>")
      case True
      then have "x * of_int P - of_int \<lfloor>x * of_int P\<rfloor> = rat_of_int r * t"
        by (simp only: y flip: True)
      with half have "round_half_even (x * of_int P) = \<lfloor>x * of_int P\<rfloor> + 1"
        by (simp only: round_half_even_up)
      with True show ?thesis by simp
    next
      case False
      with fl have "(q - 1) * P < \<lfloor>x * of_int P\<rfloor>" by simp
      with round_half_even_ge_floor [of "x * of_int P"] show ?thesis by simp
    qed
  qed
  have "double x \<le> of_int q"
  proof -
    from up have "rat_of_int (round_half_even (x * of_int P)) \<le> of_int (q * P)"
      by (simp only: of_int_le_iff)
    then show ?thesis using Pr by (simp add: dbl pos_divide_le_eq)
  qed
  moreover have "of_int (q - 1) < double x"
  proof -
    from lo have "rat_of_int ((q - 1) * P) < of_int (round_half_even (x * of_int P))"
      by (simp only: of_int_less_iff)
    then show ?thesis using Pr by (simp add: dbl pos_less_divide_eq)
  qed
  ultimately have "\<lceil>double x\<rceil> = q"
    by (simp add: ceiling_eq_iff)
  then show ?thesis by (simp add: q_def x_def)
qed

lemma getMinNumSignatures_signatures:
  "chunkSize P \<noteq> 0 \<Longrightarrow>
   getMinNumSignatures P n = Finite (signatures (rat_of_int n / rat_of_int (chunkSize P)))"
  by (simp add: getMinNumSignatures_def signatures_def double_div_def)

lemma double_small [simp]: "double 0 = 0" "double 1 = 1" "double 2 = 2" "double 4 = 4"
  using double_exact_int [of 0] double_exact_int [of 1] double_exact_int [of 2]
    double_exact_int [of 4]
  by simp_all

lemma signatures_0: "signatures 0 = 4"
  by (simp add: signatures_def double_add_def double_mul_def Math_ceil_def)

lemma Math_ceil_mono: "x \<le> y \<Longrightarrow> Math_ceil x \<le> Math_ceil y"
  by (simp add: Math_ceil_def ceiling_mono)

lemma Math_ceil_nonneg: "0 \<le> x \<Longrightarrow> 0 \<le> Math_ceil x"
  by (simp add: Math_ceil_def)

lemma signatures_mono:
  assumes "0 \<le> x" and "x \<le> y"
  shows "signatures x \<le> signatures y"
proof -
  have d: "0 \<le> double x" "double x \<le> double y"
    using assms by (simp_all add: double_nonneg double_mono)
  then have c: "0 \<le> Math_ceil (double x)" "Math_ceil (double x) \<le> Math_ceil (double y)"
    by (simp_all add: Math_ceil_nonneg Math_ceil_mono)
  then have u: "0 \<le> double_add (Math_ceil (double x)) 1"
      "double_add (Math_ceil (double x)) 1 \<le> double_add (Math_ceil (double y)) 1"
    by (simp_all add: double_add_def double_nonneg double_mono)
  then have t: "0 \<le> double_add (double_add (Math_ceil (double x)) 1) 1"
      "double_add (double_add (Math_ceil (double x)) 1) 1 \<le>
       double_add (double_add (Math_ceil (double y)) 1) 1"
    by (simp_all add: double_add_def double_nonneg double_mono)
  then show ?thesis
    by (simp add: signatures_def double_mul_def double_mono)
qed

lemma signatures_even:
  assumes "0 \<le> x"
  shows "\<exists>k. signatures x = rat_of_int k \<and> even k"
proof -
  define C where "C = \<lceil>double x\<rceil>"
  have C: "0 \<le> C"
    unfolding C_def using double_nonneg [OF assms] by (metis ceiling_mono ceiling_zero)
  then have "0 \<le> C + 1" by simp
  from double_of_int [OF this] obtain i1 where i1: "double (rat_of_int C + 1) = rat_of_int i1"
    by auto
  have "double 1 \<le> double (rat_of_int C + 1)"
    using C by (intro double_mono) simp_all
  then have "rat_of_int 1 \<le> rat_of_int i1" by (simp add: i1)
  then have "1 \<le> i1" by (simp only: of_int_le_iff)
  then have "0 \<le> i1 + 1" by simp
  from double_of_int [OF this] obtain i2 where i2: "double (rat_of_int i1 + 1) = rat_of_int i2"
    by auto
  have "double 1 \<le> double (rat_of_int i1 + 1)"
    using \<open>1 \<le> i1\<close> by (intro double_mono) simp_all
  then have "rat_of_int 1 \<le> rat_of_int i2" by (simp add: i2)
  then have "1 \<le> i2" by (simp only: of_int_le_iff)
  then have "0 \<le> 2 * i2" by simp
  from double_of_int [OF this] obtain k where k: "double (2 * rat_of_int i2) = rat_of_int k"
    and "even k" by auto
  have "signatures x = double (2 * double (double (rat_of_int C + 1) + 1))"
    by (simp add: signatures_def double_mul_def double_add_def Math_ceil_def C_def)
  also have "\<dots> = rat_of_int k"
    by (simp only: i1 i2 k)
  finally show ?thesis using \<open>even k\<close> by blast
qed

lemma signatures_formula:
  assumes a: "0 \<le> a" "a < 2 ^ 53" and c: "2 \<le> c"
  shows "signatures (rat_of_int a / rat_of_int c) =
         rat_of_int (2 * (\<lceil>rat_of_int a / rat_of_int c\<rceil> + 2))"
proof -
  define q where "q = \<lceil>rat_of_int a / rat_of_int c\<rceil>"
  from c have cpos: "0 < c" by simp
  have C: "\<lceil>double (rat_of_int a / rat_of_int c)\<rceil> = q"
    unfolding q_def using a cpos by (rule ceiling_double_quotient)
  have q0: "0 \<le> q"
    unfolding q_def using a(1) cpos by (metis ceiling_mono ceiling_zero divide_nonneg_pos of_int_0_le_iff of_int_0_less_iff)
  have "a \<le> 2 ^ 52 * 2" using a(2) by simp
  also have "\<dots> \<le> 2 ^ 52 * c" using c by simp
  finally have "rat_of_int a \<le> rat_of_int (2 ^ 52 * c)" by (simp only: of_int_le_iff)
  then have "rat_of_int a / rat_of_int c \<le> rat_of_int (2 ^ 52)"
    using cpos by (simp add: pos_divide_le_eq)
  then have q52: "q \<le> 2 ^ 52"
    unfolding q_def by (simp only: ceiling_le_iff)
  have "double (rat_of_int (q + 1)) = rat_of_int (q + 1)"
    using q0 q52 by (intro double_exact_int) simp_all
  then have e1: "double (rat_of_int q + 1) = rat_of_int q + 1" by simp
  have "double (rat_of_int (q + 2)) = rat_of_int (q + 2)"
    using q0 q52 by (intro double_exact_int) simp_all
  then have e2: "double (rat_of_int q + 1 + 1) = rat_of_int q + 2" by (simp add: add.assoc)
  have "double (rat_of_int (2 * (q + 2))) = rat_of_int (2 * (q + 2))"
    using q0 q52 by (intro double_exact_scaled [where k = 1 and i = "q + 2"]) simp_all
  then have e3: "double (2 * (rat_of_int q + 2)) = rat_of_int (2 * (q + 2))" by simp
  have "signatures (rat_of_int a / rat_of_int c) =
      double (2 * double (double (rat_of_int q + 1) + 1))"
    by (simp add: signatures_def double_mul_def double_add_def Math_ceil_def C)
  also have "\<dots> = rat_of_int (2 * (q + 2))"
    by (simp only: e1 e2 e3)
  finally show ?thesis by (simp add: q_def)
qed

section \<open>The number of signatures\<close>

text \<open>
  Claim C9, amended. With a packet size ceiling above 300 (so that the chunk size is
  positive), for every non-negative \<open>dataLength\<close> the result is an even integer, at
  least 4, equal to 4 at \<open>dataLength = 0\<close>, and non-decreasing in \<open>dataLength\<close>. For
  \<open>dataLength\<close> below \<open>2 ^ 53\<close> and a chunk size of at least 2 it is
  \<open>2 * (\<lceil>dataLength / chunkSize\<rceil> + 2)\<close>.
\<close>

theorem getMinNumSignatures_formula:
  assumes "300 < PACKET_DATA_SIZE" and "0 \<le> dataLength" and "dataLength \<le> dataLength'"
  shows "\<exists>k k'. getMinNumSignatures PACKET_DATA_SIZE dataLength = Finite (of_int k) \<and>
           getMinNumSignatures PACKET_DATA_SIZE dataLength' = Finite (of_int k') \<and>
           even k \<and> 4 \<le> k \<and> k \<le> k' \<and>
           getMinNumSignatures PACKET_DATA_SIZE 0 = Finite 4 \<and>
           (dataLength < 2 ^ 53 \<and> 301 < PACKET_DATA_SIZE \<longrightarrow>
              k = 2 * (\<lceil>rat_of_int dataLength / rat_of_int (chunkSize PACKET_DATA_SIZE)\<rceil> + 2))"
proof -
  define c where "c = chunkSize PACKET_DATA_SIZE"
  from assms(1) have c: "0 < c" "c \<noteq> 0"
    by (simp_all add: c_def chunkSize_def CHUNK_SIZE_def)
  then have cr: "0 < rat_of_int c" by simp
  let ?x = "rat_of_int dataLength / rat_of_int c"
  let ?x' = "rat_of_int dataLength' / rat_of_int c"
  have x0: "0 \<le> ?x" using assms(2) cr by simp
  have xx: "?x \<le> ?x'" using assms(3) cr by (simp add: divide_right_mono)
  then have x0': "0 \<le> ?x'" using x0 by simp
  from signatures_even [OF x0] obtain k where k: "signatures ?x = rat_of_int k" "even k"
    by blast
  from signatures_even [OF x0'] obtain k' where k': "signatures ?x' = rat_of_int k'"
    by blast
  from signatures_mono [OF x0 xx] have "rat_of_int k \<le> rat_of_int k'"
    by (simp only: k k')
  then have mono: "k \<le> k'" by (simp only: of_int_le_iff)
  from signatures_mono [of 0 ?x] x0 have "rat_of_int 4 \<le> rat_of_int k"
    by (simp add: signatures_0 k)
  then have four: "4 \<le> k" by (simp only: of_int_le_iff)
  have f: "k = 2 * (\<lceil>?x\<rceil> + 2)" if "dataLength < 2 ^ 53" and "301 < PACKET_DATA_SIZE"
  proof -
    from that(2) have "2 \<le> c" by (simp add: c_def chunkSize_def CHUNK_SIZE_def)
    from signatures_formula [OF assms(2) that(1) this]
    have "rat_of_int k = rat_of_int (2 * (\<lceil>?x\<rceil> + 2))" by (simp only: k)
    then show ?thesis by (simp only: of_int_eq_iff)
  qed
  have g: "getMinNumSignatures PACKET_DATA_SIZE n = Finite (signatures (rat_of_int n / rat_of_int c))"
    for n
    unfolding c_def using c(2) by (intro getMinNumSignatures_signatures) (simp add: c_def)
  from g [of 0] have z: "getMinNumSignatures PACKET_DATA_SIZE 0 = Finite 4"
    by (simp add: signatures_0)
  from k k' mono four f z show ?thesis
    unfolding c_def [symmetric] by (auto simp: g)
qed

theorem getMinNumSignatures_formula_witness:
  "(300::int) < 1232 \<and> (0::int) \<le> 933 \<and> (933::int) \<le> 2000 \<and> (933::int) < 2 ^ 53 \<and>
   (301::int) < 1232 \<and>
   getMinNumSignatures 1232 933 = Finite 8 \<and> getMinNumSignatures 1232 2000 = Finite 10 \<and>
   getMinNumSignatures 1232 0 = Finite 4"
proof -
  have c: "chunkSize 1232 = 932" by (simp add: chunkSize_def CHUNK_SIZE_def)
  from getMinNumSignatures_formula [of 1232 933 2000]
  obtain k where "getMinNumSignatures 1232 933 = Finite (of_int k)"
    and "k = 2 * (\<lceil>rat_of_int 933 / rat_of_int (chunkSize 1232)\<rceil> + 2)"
    and z: "getMinNumSignatures 1232 0 = Finite 4"
    by auto
  then have a: "getMinNumSignatures 1232 933 = Finite 8"
    by (simp add: c ceiling_eq_iff)
  from getMinNumSignatures_formula [of 1232 2000 2000]
  obtain k where "getMinNumSignatures 1232 2000 = Finite (of_int k)"
    and "k = 2 * (\<lceil>rat_of_int 2000 / rat_of_int (chunkSize 1232)\<rceil> + 2)"
    by auto
  then have b: "getMinNumSignatures 1232 2000 = Finite 10"
    by (simp add: c ceiling_eq_iff)
  from a b z show ?thesis by simp
qed

lemma double_quotient_2_60:
  "double (rat_of_int (2 ^ 60) / rat_of_int 932) = 1237040240994471"
proof -
  let ?x = "rat_of_int (2 ^ 60) / rat_of_int 932"
  have x: "0 < ?x" by simp
  have s: "significand_shift ?x = 2"
    by (rule shift_unique [OF x]) simp_all
  have f: "\<lfloor>?x * 4\<rfloor> = 4948160963977884"
    by (simp add: floor_eq_iff)
  have "round_half_even (?x * 4) = 4948160963977884"
    unfolding round_half_even_def Let_def f by simp
  then have "round_half_even (?x * 2 powi 2) = 4948160963977884" by simp
  then show ?thesis
    unfolding double_pos_def [OF x] s by simp
qed

text \<open>
  The claim as stated, for every non-negative \<open>dataLength\<close>, fails at \<open>2 ^ 60\<close> with the
  chunk size 932: the quotient is \<open>1237040240994471 + 1 / 233\<close>, the division rounds it
  to \<open>1237040240994471\<close>, and the result is 2 less than the formula's.
\<close>

theorem getMinNumSignatures_counterexample:
  "getMinNumSignatures 1232 (2 ^ 60) = Finite 2474080481988946 \<and>
   2 * (\<lceil>rat_of_int (2 ^ 60) / rat_of_int (chunkSize 1232)\<rceil> + 2) = 2474080481988948"
proof -
  have c: "chunkSize 1232 = 932" by (simp add: chunkSize_def CHUNK_SIZE_def)
  have e1: "double 1237040240994472 = 1237040240994472"
    using double_exact_int [of 1237040240994472] by simp
  have e2: "double 1237040240994473 = 1237040240994473"
    using double_exact_int [of 1237040240994473] by simp
  have e3: "double 2474080481988946 = 2474080481988946"
    using double_exact_int [of 2474080481988946] by simp
  have "getMinNumSignatures 1232 (2 ^ 60) =
      Finite (signatures (rat_of_int (2 ^ 60) / rat_of_int 932))"
    using getMinNumSignatures_signatures [of 1232 "2 ^ 60"] by (simp add: c)
  also have "signatures (rat_of_int (2 ^ 60) / rat_of_int 932) = 2474080481988946"
    unfolding signatures_def double_quotient_2_60
    by (simp add: Math_ceil_def double_add_def double_mul_def e1 e2 e3)
  finally have a: "getMinNumSignatures 1232 (2 ^ 60) = Finite 2474080481988946" .
  have "\<lceil>rat_of_int (2 ^ 60) / rat_of_int 932\<rceil> = 1237040240994472"
    by (simp add: ceiling_eq_iff)
  then have b: "2 * (\<lceil>rat_of_int (2 ^ 60) / rat_of_int (chunkSize 1232)\<rceil> + 2) =
      2474080481988948"
    by (simp only: c) simp
  from a b show ?thesis by simp
qed

lemma double_2_53_plus_1: "double 9007199254740993 = 9007199254740992"
proof -
  let ?x = "9007199254740993 :: rat"
  have x: "0 < ?x" by simp
  have s: "significand_shift ?x = - 1"
    by (rule shift_unique [OF x]) simp_all
  have f: "\<lfloor>?x / 2\<rfloor> = 4503599627370496"
    by (simp add: floor_eq_iff)
  have r: "round_half_even (?x / 2) = 4503599627370496"
    unfolding round_half_even_def Let_def f by simp
  have "?x * 2 powi (- 1) = ?x / 2" by simp
  with r have "round_half_even (?x * 2 powi (- 1)) = 4503599627370496"
    by (simp only:)
  then show ?thesis
    unfolding double_pos_def [OF x] s by simp
qed

text \<open>
  With the chunk size 1 the bound on \<open>dataLength\<close> alone is not enough: at
  \<open>2 ^ 53 - 1\<close> the second addition rounds \<open>2 ^ 53 + 1\<close> to \<open>2 ^ 53\<close>.
\<close>

lemma getMinNumSignatures_chunk_size_1:
  "getMinNumSignatures 301 9007199254740991 = Finite 18014398509481984 \<and>
   2 * (\<lceil>rat_of_int 9007199254740991 / rat_of_int (chunkSize 301)\<rceil> + 2) =
     18014398509481986"
proof -
  have c: "chunkSize 301 = 1" by (simp add: chunkSize_def CHUNK_SIZE_def)
  have e0: "double 9007199254740991 = 9007199254740991"
    using double_exact_int [of 9007199254740991] by simp
  have "double (rat_of_int 9007199254740992) = rat_of_int 9007199254740992"
    by (rule double_exact_scaled [where k = 1 and i = 4503599627370496]) simp_all
  then have e1: "double 9007199254740992 = 9007199254740992" by simp
  have "double (rat_of_int 18014398509481984) = rat_of_int 18014398509481984"
    by (rule double_exact_scaled [where k = 2 and i = 4503599627370496]) simp_all
  then have e3: "double 18014398509481984 = 18014398509481984" by simp
  have "getMinNumSignatures 301 9007199254740991 = Finite (signatures 9007199254740991)"
    using getMinNumSignatures_signatures [of 301 9007199254740991] by (simp add: c)
  also have "signatures 9007199254740991 = 18014398509481984"
    by (simp add: signatures_def Math_ceil_def double_add_def double_mul_def e0 e1
        double_2_53_plus_1 e3)
  finally show ?thesis by (simp add: c)
qed

section \<open>Decoding lemmas\<close>

lemma publicKey_slice: "publicKey b off = Inr (take 32 (drop off b))"
  by (simp add: publicKey_def blob_def)

lemma seq_total:
  assumes "\<And>off. elem b off = Inr (g off)"
  shows "seq elem sp n b off = Inr (map (\<lambda>i. g (off + sp * i)) [0..<n])"
proof (induction n arbitrary: off)
  case 0
  show ?case by simp
next
  case (Suc n)
  have "[0..<Suc n] = 0 # map Suc [0..<n]"
    by (simp add: upt_conv_Cons map_Suc_upt del: upt_Suc)
  then show ?case
    by (simp add: Suc.IH assms comp_def add.assoc del: upt_Suc)
qed

lemma seq_publicKey:
  "seq publicKey 32 n b off = Inr (map (\<lambda>i. take 32 (drop (off + 32 * i) b)) [0..<n])"
  by (rule seq_total) (rule publicKey_slice)

lemma mapE_new_PublicKey:
  "\<forall>x \<in> set xs. length x \<le> 32 \<Longrightarrow> mapE new_PublicKey xs = Inr (map PublicKey xs)"
  by (induction xs) (simp_all add: new_PublicKey_def PUBLIC_KEY_LENGTH_def)

lemma readUIntLE_ok:
  "off + n \<le> length b \<Longrightarrow> readUIntLE b off n = Inr (le_value (take n (drop off b)))"
  by (simp add: readUIntLE_def)

lemma u8_byte:
  assumes "off < length b"
  shows "u8 b off = Inr (unat (b ! off))"
proof -
  have "drop off b = b ! off # drop (Suc off) b"
    using Cons_nth_drop_Suc [OF assms] by simp
  with assms show ?thesis
    by (simp add: u8_def readUIntLE_def)
qed

lemma layout_ok:
  assumes "22 \<le> length b"
  shows "LookupTableMetaLayout_layout b = Inr (meta_of b)"
  using assms
  by (simp add: LookupTableMetaLayout_layout_def u32_def nu64_def readUIntLE_ok u8_byte
      seq_publicKey meta_of_def)

lemma bindE_eq_Inr: "bindE m f = Inr y \<longleftrightarrow> (\<exists>v. m = Inr v \<and> f v = Inr y)"
  by (cases m) simp_all

lemma layout_short:
  assumes "length b < 22"
  shows "\<exists>e. LookupTableMetaLayout_layout b = Inl e"
proof (cases "LookupTableMetaLayout_layout b")
  case (Inl e)
  then show ?thesis by blast
next
  case (Inr m)
  then obtain c where "u8 b (22 - 1) = Inr c"
    unfolding LookupTableMetaLayout_layout_def bindE_eq_Inr by blast
  with assms show ?thesis
    by (simp add: u8_def readUIntLE_def)
qed

lemma decodeData_ok:
  assumes "22 \<le> length b" and "le_value (take 4 b) = 1"
  shows "decodeData LookupTableMetaLayout b = Inr (meta_of b)"
  using assms
  by (simp add: decodeData_def LookupTableMetaLayout_def layout_ok) (simp add: meta_of_def)

lemma decodeData_wrong_tag:
  assumes "22 \<le> length b" and "le_value (take 4 b) \<noteq> 1"
  shows "\<exists>e. decodeData LookupTableMetaLayout b = Inl e"
  using assms
  by (simp add: decodeData_def LookupTableMetaLayout_def layout_ok) (simp add: meta_of_def)

lemma decodeData_short:
  assumes "length b < 22"
  shows "\<exists>e. decodeData LookupTableMetaLayout b = Inl e"
proof -
  from layout_short [OF assms] obtain e where "LookupTableMetaLayout_layout b = Inl e" ..
  then show ?thesis
    by (cases e) (simp add: decodeData_def LookupTableMetaLayout_def)
qed

lemma decodeData_Inr:
  assumes "decodeData LookupTableMetaLayout b = Inr m"
  shows "22 \<le> length b \<and> le_value (take 4 b) = 1 \<and> m = meta_of b"
proof -
  have len: "22 \<le> length b"
    using decodeData_short [of b] assms by (cases "length b < 22") auto
  moreover have "le_value (take 4 b) = 1"
    using decodeData_wrong_tag [OF len] assms by (cases "le_value (take 4 b) = 1") auto
  ultimately show ?thesis
    using assms by (simp add: decodeData_ok)
qed

lemma authority_of_meta:
  assumes "56 \<le> length b"
  shows "(case meta_authority (meta_of b) of
            [] \<Rightarrow> Inr None
          | a # _ \<Rightarrow> bindE (new_PublicKey a) (\<lambda>k. Inr (Some k))) =
         Inr (if b ! 21 = 0 then None else Some (PublicKey (take 32 (drop 22 b))))"
proof (cases "b ! 21 = 0")
  case True
  then show ?thesis by (simp add: meta_of_def)
next
  case False
  then have "0 < unat (b ! 21)"
    by (simp add: unat_gt_0)
  then have "[0..<unat (b ! 21)] = 0 # [1..<unat (b ! 21)]"
    by (simp add: upt_conv_Cons)
  with False show ?thesis
    by (simp add: meta_of_def new_PublicKey_def PUBLIC_KEY_LENGTH_def)
qed

lemma js_rem_nat: "js_rem (int k) 32 = int (k mod 32)"
  by (cases "k = 0") (simp_all add: js_rem_def zmod_int)

lemma deserialize_store_ok:
  assumes len: "56 \<le> length (h ! r)"
    and md: "(length (h ! r) - 56) mod 32 = 0"
    and tag: "le_value (take 4 (h ! r)) = 1"
  shows "deserialize_store h r = (Inr (state_of (h ! r)), h @ [drop 56 (h ! r)])"
proof -
  let ?b = "h ! r"
  let ?k = "length ?b - 56"
  have dd: "decodeData LookupTableMetaLayout ?b = Inr (meta_of ?b)"
    using len tag by (simp add: decodeData_ok)
  have i: "int (length ?b) - 56 = int ?k"
    using len by simp
  have rem: "js_rem (int ?k) 32 = 0"
    using md by (simp only: js_rem_nat)
  have num: "nat (int ?k div 32) = ?k div 32"
    by (simp flip: zdiv_int)
  have "mapE new_PublicKey (map (\<lambda>i. take 32 (drop (56 + 32 * i) ?b)) [0..<?k div 32])
      = Inr (map PublicKey (map (\<lambda>i. take 32 (drop (56 + 32 * i) ?b)) [0..<?k div 32]))"
    by (rule mapE_new_PublicKey) auto
  then have keys:
    "mapE new_PublicKey (map (\<lambda>i. take 32 (drop (56 + 32 * i) ?b)) [0..<?k div 32])
      = Inr (map (\<lambda>i. PublicKey (take 32 (drop (56 + 32 * i) ?b))) [0..<?k div 32])"
    by (simp add: comp_def)
  show ?thesis
    unfolding deserialize_store_def dd
    by (simp add: LOOKUP_TABLE_META_SIZE_def i rem num assert_def Uint8Array_slice_def
        seq_publicKey keys authority_of_meta [OF len] state_of_def comp_def add.commute)
qed

lemma deserialize_store_fail:
  assumes "\<not> (56 \<le> length (h ! r) \<and> (length (h ! r) - 56) mod 32 = 0 \<and>
              le_value (take 4 (h ! r)) = 1)"
  shows "\<exists>e. deserialize_store h r = (Inl e, h)"
proof (cases "decodeData LookupTableMetaLayout (h ! r)")
  case (Inl e)
  then show ?thesis by (simp add: deserialize_store_def)
next
  case (Inr m)
  let ?k = "length (h ! r) - 56"
  from decodeData_Inr [OF Inr] have tag: "le_value (take 4 (h ! r)) = 1" by simp
  show ?thesis
  proof (cases "56 \<le> length (h ! r)")
    case False
    then show ?thesis
      by (simp add: deserialize_store_def Inr LOOKUP_TABLE_META_SIZE_def assert_def)
  next
    case True
    then have i: "int (length (h ! r)) - 56 = int ?k" by simp
    from True tag assms have "?k mod 32 \<noteq> 0" by simp
    then have "js_rem (int ?k) 32 \<noteq> 0"
      by (simp only: js_rem_nat)
    then show ?thesis
      by (simp add: deserialize_store_def Inr LOOKUP_TABLE_META_SIZE_def assert_def i)
  qed
qed

lemma take4:
  assumes "4 \<le> length (b :: 'a list)"
  shows "take 4 b = [b ! 0, b ! 1, b ! 2, b ! 3]"
proof -
  from assms obtain x0 b1 where b: "b = x0 # b1" by (cases b) auto
  with assms obtain x1 b2 where b1: "b1 = x1 # b2" by (cases b1) auto
  with assms b obtain x2 b3 where b2: "b2 = x2 # b3" by (cases b2) auto
  with assms b b1 obtain x3 b4 where b3: "b3 = x3 # b4" by (cases b3) auto
  show ?thesis by (simp add: b b1 b2 b3)
qed

lemma add_256_eq_1: "a + 256 * x = (1::nat) \<longleftrightarrow> a = 1 \<and> x = 0"
  by (cases x) simp_all

lemma unat_byte_eq_1: "unat (x :: byte) = 1 \<longleftrightarrow> x = 1"
  by (simp add: word_unat_eq_iff)

lemma le_value_eq_0: "le_value xs = 0 \<longleftrightarrow> set xs \<subseteq> {0}"
  by (induction xs) (simp_all add: unat_eq_0)

lemma le_value_eq_1: "le_value (x # xs) = 1 \<longleftrightarrow> x = 1 \<and> set xs \<subseteq> {0}"
  by (simp only: le_value.simps add_256_eq_1 unat_byte_eq_1 le_value_eq_0)

lemma le_value_tag:
  assumes "4 \<le> length b"
  shows "le_value (take 4 b) = 1 \<longleftrightarrow> take 4 b = [1, 0, 0, 0]"
  unfolding take4 [OF assms] le_value_eq_1 by simp

lemma deserialize_ok:
  assumes "56 \<le> length b" and "(length b - 56) mod 32 = 0" and "take 4 b = [1, 0, 0, 0]"
  shows "deserialize b = Inr (state_of b)"
proof -
  have "le_value (take 4 b) = 1"
    using assms by (simp add: le_value_tag)
  with assms show ?thesis
    using deserialize_store_ok [of "[b]" 0] by (simp add: deserialize_def)
qed

lemma deserialize_fail:
  assumes "\<not> (56 \<le> length b \<and> (length b - 56) mod 32 = 0 \<and> take 4 b = [1, 0, 0, 0])"
  shows "isl (deserialize b)"
proof -
  have "\<not> (56 \<le> length b \<and> (length b - 56) mod 32 = 0 \<and> le_value (take 4 b) = 1)"
  proof
    assume a: "56 \<le> length b \<and> (length b - 56) mod 32 = 0 \<and> le_value (take 4 b) = 1"
    then have "4 \<le> length b" by simp
    from le_value_tag [OF this] a assms show False by simp
  qed
  then obtain e where "deserialize_store [b] 0 = (Inl e, [b])"
    using deserialize_store_fail [of "[b]" 0] by auto
  then show ?thesis
    by (simp add: deserialize_def)
qed

lemma deserialize_Inr:
  assumes "deserialize b = Inr st"
  shows "56 \<le> length b \<and> (length b - 56) mod 32 = 0 \<and> take 4 b = [1, 0, 0, 0] \<and> st = state_of b"
proof -
  have c: "56 \<le> length b \<and> (length b - 56) mod 32 = 0 \<and> take 4 b = [1, 0, 0, 0]"
    using deserialize_fail [of b] assms by (rule_tac ccontr) simp
  then show ?thesis
    using deserialize_ok [of b] assms by simp
qed

lemma address_length:
  assumes "56 \<le> length b" and "(length b - 56) mod 32 = 0" and "i < (length b - 56) div 32"
  shows "length (take 32 (drop (56 + 32 * i) b)) = 32"
proof -
  from assms(2) have "32 dvd (length b - 56)"
    by (simp add: mod_eq_0_iff_dvd)
  then obtain q where q: "length b - 56 = 32 * q" ..
  with assms(3) have "i < q" by simp
  then have "32 * (i + 1) \<le> 32 * q" by simp
  with q assms(1) show ?thesis by simp
qed

section \<open>Properties of deserialize\<close>

text \<open>
  Claim C2, amended. \<open>deserialize\<close> succeeds exactly when the type tag (the first four
  bytes, a little-endian 32-bit integer) is 1, the input has at least 56 bytes and the
  bytes after the 56-byte prefix are a multiple of 32. On success the address list
  has \<open>(length - 56) div 32\<close> entries, and entry \<open>i\<close> is the 32 bytes at offset
  \<open>56 + 32 * i\<close>.
\<close>

theorem deserialize_succeeds_iff:
  "(\<not> isl (deserialize accountData) \<longleftrightarrow>
      take 4 accountData = [1, 0, 0, 0] \<and> 56 \<le> length accountData \<and>
      (length accountData - 56) mod 32 = 0) \<and>
   (\<forall>st. deserialize accountData = Inr st \<longrightarrow>
      length (addresses st) = (length accountData - 56) div 32 \<and>
      (\<forall>i < (length accountData - 56) div 32.
         addresses st ! i = PublicKey (take 32 (drop (56 + 32 * i) accountData)) \<and>
         length (take 32 (drop (56 + 32 * i) accountData)) = 32))"
proof (intro conjI allI impI)
  show "\<not> isl (deserialize accountData) \<longleftrightarrow>
      take 4 accountData = [1, 0, 0, 0] \<and> 56 \<le> length accountData \<and>
      (length accountData - 56) mod 32 = 0"
  proof
    assume "\<not> isl (deserialize accountData)"
    then show "take 4 accountData = [1, 0, 0, 0] \<and> 56 \<le> length accountData \<and>
      (length accountData - 56) mod 32 = 0"
      using deserialize_fail [of accountData] by blast
  next
    assume "take 4 accountData = [1, 0, 0, 0] \<and> 56 \<le> length accountData \<and>
      (length accountData - 56) mod 32 = 0"
    then show "\<not> isl (deserialize accountData)"
      using deserialize_ok [of accountData] by simp
  qed
next
  fix st assume "deserialize accountData = Inr st"
  then have st: "st = state_of accountData"
    using deserialize_Inr by blast
  then show "length (addresses st) = (length accountData - 56) div 32"
    by (simp add: state_of_def)
next
  fix st i
  assume "deserialize accountData = Inr st" and i: "i < (length accountData - 56) div 32"
  then have c: "56 \<le> length accountData" "(length accountData - 56) mod 32 = 0"
    and st: "st = state_of accountData"
    using deserialize_Inr by blast+
  from st i show "addresses st ! i = PublicKey (take 32 (drop (56 + 32 * i) accountData))"
    by (simp add: state_of_def)
  from c i show "length (take 32 (drop (56 + 32 * i) accountData)) = 32"
    by (rule address_length)
qed

theorem deserialize_succeeds_iff_witness:
  "take 4 owned_table = [1, 0, 0, 0] \<and> 56 \<le> length owned_table \<and>
   (length owned_table - 56) mod 32 = 0 \<and> \<not> isl (deserialize owned_table) \<and>
   (\<exists>st. deserialize owned_table = Inr st \<and>
      addresses st = [PublicKey (take 32 (drop 56 owned_table))])"
proof -
  have h: "take 4 owned_table = [1, 0, 0, 0]" "56 \<le> length owned_table"
    "(length owned_table - 56) mod 32 = 0" "(length owned_table - 56) div 32 = 1"
    by (simp_all add: owned_table_def)
  from h deserialize_succeeds_iff [of owned_table]
  have ok: "\<not> isl (deserialize owned_table)" by simp
  then obtain st where st: "deserialize owned_table = Inr st"
    by (cases "deserialize owned_table") auto
  with h deserialize_succeeds_iff [of owned_table]
  have "length (addresses st) = 1"
    and "addresses st ! 0 = PublicKey (take 32 (drop 56 owned_table))"
    by simp_all
  then have "addresses st = [PublicKey (take 32 (drop 56 owned_table))]"
    by (cases "addresses st") simp_all
  with h ok st show ?thesis by simp
qed

text \<open>
  The claim as stated, with the two length conditions alone, fails on an account of 56
  zero bytes: both conditions hold, and \<open>deserialize\<close> raises, the type tag being 0.
\<close>

theorem deserialize_length_counterexample:
  "56 \<le> length uninitialized_table \<and> (length uninitialized_table - 56) mod 32 = 0 \<and>
   isl (deserialize uninitialized_table)"
proof -
  have "take 4 uninitialized_table \<noteq> [1, 0, 0, 0]"
    by (simp add: uninitialized_table_def)
  then have "isl (deserialize uninitialized_table)"
    by (simp add: deserialize_fail)
  then show ?thesis
    by (simp add: uninitialized_table_def)
qed

text \<open>
  Claim C6. In a state returned by \<open>deserialize\<close>, the authority is absent exactly when
  the presence marker (the byte at offset 21) is zero; when the marker is not zero,
  the authority is the 32-byte key at offsets 22 to 53, right after the marker.
\<close>

theorem deserialize_authority:
  assumes "deserialize accountData = Inr st"
  shows "(authority st = None \<longleftrightarrow> accountData ! 21 = 0) \<and>
         (accountData ! 21 \<noteq> 0 \<longrightarrow>
            authority st = Some (PublicKey (take 32 (drop 22 accountData))) \<and>
            length (take 32 (drop 22 accountData)) = 32)"
proof -
  from deserialize_Inr [OF assms]
  have "56 \<le> length accountData" and "st = state_of accountData" by simp_all
  then show ?thesis
    by (simp add: state_of_def)
qed

theorem deserialize_authority_witness:
  "(\<exists>st. deserialize owned_table = Inr st \<and> owned_table ! 21 \<noteq> 0 \<and>
         authority st = Some (PublicKey (replicate 32 9))) \<and>
   (\<exists>st. deserialize active_table = Inr st \<and> active_table ! 21 = 0 \<and>
         authority st = None)"
proof -
  have o: "deserialize owned_table = Inr (state_of owned_table)"
    by (rule deserialize_ok) (simp_all add: owned_table_def)
  have a: "deserialize active_table = Inr (state_of active_table)"
    by (rule deserialize_ok) (simp_all add: active_table_def)
  have m: "owned_table ! 21 \<noteq> 0" "take 32 (drop 22 owned_table) = replicate 32 9"
    by (simp_all add: owned_table_def)
  have z: "active_table ! 21 = 0"
    by (simp add: active_table_def)
  from deserialize_authority [OF o] deserialize_authority [OF a] o a m z
  show ?thesis by simp
qed



text \<open>
  Claim C10. Whether \<open>deserialize\<close> returns or raises, the bytes of its argument are
  after the call what they were before; so is every other buffer that existed before
  the call.
\<close>

theorem deserialize_store_frame:
  assumes "accountData < length h"
  shows "snd (deserialize_store h accountData) ! accountData = h ! accountData \<and>
         take (length h) (snd (deserialize_store h accountData)) = h"
proof (cases "56 \<le> length (h ! accountData) \<and> (length (h ! accountData) - 56) mod 32 = 0 \<and>
    le_value (take 4 (h ! accountData)) = 1")
  case False
  then obtain e where "deserialize_store h accountData = (Inl e, h)"
    using deserialize_store_fail [of h accountData] by blast
  then show ?thesis by simp
next
  case True
  then have "deserialize_store h accountData =
      (Inr (state_of (h ! accountData)), h @ [drop 56 (h ! accountData)])"
    by (simp add: deserialize_store_ok)
  with assms show ?thesis
    by (simp add: nth_append)
qed

theorem deserialize_store_frame_witness:
  "(0::nat) < length [owned_table] \<and>
   snd (deserialize_store [owned_table] 0) ! 0 = owned_table \<and>
   take 1 (snd (deserialize_store [owned_table] 0)) = [owned_table] \<and>
   (1::nat) < length [owned_table, uninitialized_table] \<and>
   snd (deserialize_store [owned_table, uninitialized_table] 1) ! 1 = uninitialized_table"
  using deserialize_store_frame [of 0 "[owned_table]"]
    deserialize_store_frame [of 1 "[owned_table, uninitialized_table]"]
  by simp

section \<open>The deactivation slot sentinel\<close>

text \<open>
  Claim C1. The account of an active table holds the deactivation slot \<open>2 ^ 64 - 1\<close>.
  \<open>deserialize\<close> reads it as the number \<open>2 ^ 64\<close>, the same number it reads from an
  account whose deactivation slot is \<open>2 ^ 64 - 2\<close>, so the two accounts give equal
  states; and on that state \<open>isActive\<close> does not return true, whatever the constant
  it compares with.
\<close>

theorem isActive_sentinel_lost:
  "\<exists>st. deserialize active_table = Inr st \<and> deserialize deactivated_table = Inr st \<and>
        deactivationSlot st = 2 ^ 64 \<and>
        (\<forall>U64_MAX k. isActive U64_MAX \<lparr>key = k, state = st\<rparr> \<noteq> Inr True)"
proof -
  have a: "deserialize active_table = Inr (state_of active_table)"
    by (rule deserialize_ok) (simp_all add: active_table_def)
  have d: "deserialize deactivated_table = Inr (state_of deactivated_table)"
    by (rule deserialize_ok) (simp_all add: deactivated_table_def)
  have r: "nearest_double (2 ^ 64 - 1) = 2 ^ 64" "nearest_double (2 ^ 64 - 2) = 2 ^ 64"
    by (simp_all add: nearest_double_def bit_length.simps)
  have sa: "deactivationSlot (state_of active_table) = 2 ^ 64"
    using r(1)
    by (simp add: state_of_def meta_of_def active_table_def roundedInt64_def V2E32_def)
  have eq: "state_of deactivated_table = state_of active_table"
    using r
    by (simp add: state_of_def meta_of_def active_table_def deactivated_table_def
        roundedInt64_def V2E32_def)
  have "isActive U64_MAX \<lparr>key = k, state = state_of active_table\<rparr> \<noteq> Inr True"
    for U64_MAX k
    by (cases U64_MAX) (simp_all add: isActive_def sa BN_number_def)
  with a d sa eq show ?thesis by simp
qed

section \<open>Properties of the compact-array length codec\<close>

lemma unat_of_nat_byte: "n < 256 \<Longrightarrow> unat (of_nat n :: byte) = n"
  by (simp add: unat_of_nat)

lemma encodeLength_small: "n < 128 \<Longrightarrow> encodeLength n = [of_nat n]"
  by (simp add: encodeLength.simps)

lemma encodeLength_step:
  "128 \<le> n \<Longrightarrow> encodeLength n = of_nat (n mod 128 + 128) # encodeLength (n div 128)"
  by (subst encodeLength.simps) simp

lemma decodeChain_encodeLength:
  "n < 128 ^ Suc fuel \<Longrightarrow>
   decodeChain (Suc fuel) (encodeLength n @ rest) = Inr (n, length (encodeLength n))"
proof (induction fuel arbitrary: n)
  case 0
  then show ?case
    by (simp add: encodeLength_small unat_of_nat_byte)
next
  case (Suc fuel)
  show ?case
  proof (cases "n < 128")
    case True
    then show ?thesis
      by (simp add: encodeLength_small unat_of_nat_byte)
  next
    case False
    then have ge: "128 \<le> n" by simp
    have lo: "n mod 128 + 128 < 256" by simp
    have "n div 128 < 128 ^ Suc fuel"
      using Suc.prems by (simp add: less_mult_imp_div_less mult.commute)
    from Suc.IH [OF this] ge unat_of_nat_byte [OF lo] show ?thesis
      by (simp add: encodeLength_step del: of_nat_add)
  qed
qed

lemma length_encodeLength:
  "n \<le> 65535 \<Longrightarrow> 1 \<le> length (encodeLength n) \<and> length (encodeLength n) \<le> 3"
proof -
  assume n: "n \<le> 65535"
  consider "n < 128" | "128 \<le> n" "n div 128 < 128" | "128 \<le> n" "128 \<le> n div 128"
    by linarith
  then show ?thesis
  proof cases
    case 1
    then show ?thesis by (simp add: encodeLength_small)
  next
    case 2
    then show ?thesis by (simp add: encodeLength_step encodeLength_small)
  next
    case 3
    with n have "n div 128 div 128 < 128" by simp
    with 3 show ?thesis by (simp add: encodeLength_step encodeLength_small)
  qed
qed

lemma decodeLength_encodeLength:
  assumes "n \<le> 65535"
  shows "decodeLength (pre @ encodeLength n @ rest) (length pre) =
         Inr (n, length (encodeLength n))"
proof -
  have "n < 128 ^ Suc 2" using assms by simp
  from decodeChain_encodeLength [OF this] assms show ?thesis
    by (simp add: decodeLength_def numeral_3_eq_3)
qed

text \<open>
  Claim C5. For every \<open>n\<close> from 0 to 65535, decoding the encoding of \<open>n\<close> gives \<open>n\<close> back
  and consumes the whole encoding, which is one to three bytes long.
\<close>

theorem compact_length_roundtrip:
  assumes "n \<le> 65535"
  shows "decodeLength (encodeLength n) 0 = Inr (n, length (encodeLength n)) \<and>
         1 \<le> length (encodeLength n) \<and> length (encodeLength n) \<le> 3"
  using decodeLength_encodeLength [OF assms, of "[]" "[]"] length_encodeLength [OF assms]
  by simp

theorem compact_length_roundtrip_witness:
  "(300::nat) \<le> 65535 \<and> encodeLength 300 = [172, 2] \<and>
   decodeLength (encodeLength 300) 0 = Inr (300, 2) \<and>
   (65535::nat) \<le> 65535 \<and> encodeLength 65535 = [255, 255, 3] \<and>
   decodeLength (encodeLength 65535) 0 = Inr (65535, 3)"
proof -
  have e: "encodeLength 300 = [172, 2]" "encodeLength 65535 = [255, 255, 3]"
    by (simp_all add: encodeLength.simps)
  with compact_length_roundtrip [of 300] compact_length_roundtrip [of 65535]
  show ?thesis by simp
qed

section \<open>Properties of the message codec\<close>

lemma decodeItems_encoded:
  assumes "\<And>x r. x \<in> set xs \<Longrightarrow> dec (enc x @ r) = Inr (x, r)"
  shows "decodeItems dec (length xs) (concat (map enc xs) @ rest) = Inr (xs, rest)"
  using assms by (induction xs) simp_all

lemma length_concat_ge:
  assumes "\<And>x. x \<in> set xs \<Longrightarrow> enc x \<noteq> []"
  shows "length xs \<le> length (concat (map enc xs))"
  using assms
proof (induction xs)
  case Nil
  show ?case by simp
next
  case (Cons x xs)
  then have "1 \<le> length (enc x)"
    by (simp add: Suc_le_eq)
  with Cons show ?case by simp
qed

lemma decodeArray_encodeArray:
  assumes len: "length xs \<le> 65535"
    and item: "\<And>x r. x \<in> set xs \<Longrightarrow> dec (enc x @ r) = Inr (x, r)"
    and nonempty: "\<And>x. x \<in> set xs \<Longrightarrow> enc x \<noteq> []"
  shows "decodeArray dec (encodeArray enc xs @ rest) = Inr (xs, rest)"
proof -
  let ?items = "concat (map enc xs) @ rest"
  have "decodeLength ([] @ encodeLength (length xs) @ ?items) (length ([] :: byte list)) =
      Inr (length xs, length (encodeLength (length xs)))"
    using len by (rule decodeLength_encodeLength)
  then have d: "decodeLength (encodeLength (length xs) @ ?items) 0 =
      Inr (length xs, length (encodeLength (length xs)))"
    by simp
  have "length xs \<le> length ?items"
    using length_concat_ge [of xs enc] nonempty by simp
  then show ?thesis
    by (simp add: decodeArray_def encodeArray_def d decodeItems_encoded item)
qed

lemma decodeByte_encodeByte: "decodeByte (encodeByte b @ r) = Inr (b, r)"
  by (simp add: decodeByte_def encodeByte_def)

lemma decodeBytes_exact: "length k = n \<Longrightarrow> decodeBytes n (k @ r) = Inr (k, r)"
  by (simp add: decodeBytes_def)

lemma decode_byte_array:
  "length xs \<le> 65535 \<Longrightarrow>
   decodeArray decodeByte (encodeArray encodeByte xs @ rest) = Inr (xs, rest)"
  by (rule decodeArray_encodeArray) (simp_all add: decodeByte_encodeByte, simp add: encodeByte_def)

lemma decodeHeader_encodeHeader: "decodeHeader (encodeHeader h @ r) = Inr (h, r)"
  by (simp add: decodeHeader_def encodeHeader_def decodeByte_def)

lemma decodeInstruction_encodeInstruction:
  assumes "wf_instruction i"
  shows "decodeInstruction (encodeInstruction i @ r) = Inr (i, r)"
  using assms
  by (simp add: decodeInstruction_def encodeInstruction_def wf_instruction_def
      decodeByte_def decode_byte_array)

lemma decodeLookup_encodeLookup:
  assumes "wf_lookup l"
  shows "decodeLookup (encodeLookup l @ r) = Inr (l, r)"
  using assms
  by (simp add: decodeLookup_def encodeLookup_def wf_lookup_def decodeBytes_exact
      decode_byte_array)

lemma decode_keys:
  assumes "length ks \<le> 65535" and "list_all (\<lambda>k. length k = 32) ks"
  shows "decodeArray (decodeBytes 32) (encodeArray (\<lambda>k. k) ks @ rest) = Inr (ks, rest)"
  using assms(1)
proof (rule decodeArray_encodeArray)
  fix x r assume "x \<in> set ks"
  with assms(2) have "length x = 32" by (simp add: list_all_iff)
  then show "decodeBytes 32 (x @ r) = Inr (x, r)" by (rule decodeBytes_exact)
next
  fix x assume "x \<in> set ks"
  with assms(2) have "length x = 32" by (simp add: list_all_iff)
  then show "x \<noteq> []" by auto
qed

lemma decode_instructions:
  assumes "length is \<le> 65535" and "list_all wf_instruction is"
  shows "decodeArray decodeInstruction (encodeArray encodeInstruction is @ rest) = Inr (is, rest)"
  using assms(1)
proof (rule decodeArray_encodeArray)
  fix x r assume "x \<in> set is"
  with assms(2) have "wf_instruction x" by (simp add: list_all_iff)
  then show "decodeInstruction (encodeInstruction x @ r) = Inr (x, r)"
    by (rule decodeInstruction_encodeInstruction)
next
  fix x show "encodeInstruction x \<noteq> []" by (simp add: encodeInstruction_def)
qed

lemma decode_lookups:
  assumes "length ls \<le> 65535" and "list_all wf_lookup ls"
  shows "decodeArray decodeLookup (encodeArray encodeLookup ls @ rest) = Inr (ls, rest)"
  using assms(1)
proof (rule decodeArray_encodeArray)
  fix x r assume "x \<in> set ls"
  with assms(2) have "wf_lookup x" by (simp add: list_all_iff)
  then show "decodeLookup (encodeLookup x @ r) = Inr (x, r)"
    by (rule decodeLookup_encodeLookup)
next
  fix x assume "x \<in> set ls"
  with assms(2) have "length (tableKey x) = 32" by (simp add: list_all_iff wf_lookup_def)
  then show "encodeLookup x \<noteq> []" by (auto simp: encodeLookup_def)
qed

lemma decodeBody_encodeBody:
  assumes "wf_body m"
  shows "decodeBody (encodeBody m @ r) = Inr (m, r)"
  using assms
  by (simp add: decodeBody_def encodeBody_def wf_body_def decodeHeader_encodeHeader
      decode_keys decodeBytes_exact decode_instructions)

lemma encodeBody_first:
  "encodeBody m = numRequiredSignatures (header m) # tl (encodeBody m)"
  by (simp add: encodeBody_def encodeHeader_def)

lemma deserialize_serialize:
  assumes "wf_message m" and "legacy_signers_fit m"
  shows "deserializeMessage (serializeMessage m) = Inr m"
proof (cases m)
  case (Legacy b)
  with assms have wf: "wf_body b" and s: "unat (numRequiredSignatures (header b)) < 128"
    by simp_all
  from decodeBody_encodeBody [OF wf, of "[]"] have d: "decodeBody (encodeBody b) = Inr (b, [])"
    by simp
  obtain t where t: "encodeBody b = numRequiredSignatures (header b) # t"
    using encodeBody_first by blast
  show ?thesis
    unfolding Legacy serializeMessage.simps deserializeMessage_def
    using s d by (simp add: t)
next
  case (V0 b ls)
  with assms have wf: "wf_body b" and l: "length ls \<le> 65535" "list_all wf_lookup ls"
    by simp_all
  from decode_lookups [OF l, of "[]"]
  have "decodeArray decodeLookup (encodeArray encodeLookup ls) = Inr (ls, [])" by simp
  with decodeBody_encodeBody [OF wf] show ?thesis
    by (simp add: V0 deserializeMessage_def)
qed

lemma high_bit_not_legacy:
  assumes "128 \<le> unat b"
  shows "deserializeMessage (b # rest) \<noteq> Inr (Legacy m)"
proof
  assume "deserializeMessage (b # rest) = Inr (Legacy m)"
  with assms show False
    by (auto simp: deserializeMessage_def bindE_eq_Inr split: if_splits)
qed

text \<open>
  Claim C4, amended. For every message of the data model, Legacy with fewer than 128
  required signatures or V0, deserializing its serialization gives the message back;
  and for every byte sequence \<open>b\<close> that is the serialization of such a message,
  serializing the deserialization of \<open>b\<close> gives \<open>b\<close> back. Messages without
  instructions and without lookups are included.
\<close>

theorem message_roundtrip:
  assumes "wf_message m" and "legacy_signers_fit m"
  shows "deserializeMessage (serializeMessage m) = Inr m \<and>
         (\<forall>b. b = serializeMessage m \<longrightarrow>
            bindE (deserializeMessage b) (\<lambda>m'. Inr (serializeMessage m')) = Inr b)"
  using deserialize_serialize [OF assms] by simp

theorem message_roundtrip_witness:
  "wf_message transfer_message \<and> legacy_signers_fit transfer_message \<and>
   deserializeMessage (serializeMessage transfer_message) = Inr transfer_message \<and>
   wf_message minimal_legacy_message \<and> legacy_signers_fit minimal_legacy_message \<and>
   serializeMessage minimal_legacy_message = [1, 0, 0, 1] @ replicate 32 1 @ replicate 32 7 @ [0] \<and>
   deserializeMessage ([1, 0, 0, 1] @ replicate 32 1 @ replicate 32 7 @ [0]) =
     Inr minimal_legacy_message"
proof -
  have t: "wf_message transfer_message" "legacy_signers_fit transfer_message"
    by (simp_all add: transfer_message_def wf_body_def wf_instruction_def wf_lookup_def)
  have l: "wf_message minimal_legacy_message" "legacy_signers_fit minimal_legacy_message"
    by (simp_all add: minimal_legacy_message_def wf_body_def)
  have s: "serializeMessage minimal_legacy_message =
      [1, 0, 0, 1] @ replicate 32 1 @ replicate 32 7 @ [0]"
    by (simp add: minimal_legacy_message_def encodeBody_def encodeHeader_def encodeArray_def
        encodeLength.simps)
  from message_roundtrip [OF t] message_roundtrip [OF l] t l s show ?thesis
    by simp
qed

text \<open>
  The claim as stated, for every compiled message, fails on a Legacy message with 128
  required signatures: the first byte of its serialization is 128, which
  \<open>deserializeMessage\<close> reads as the prefix of a versioned message.
\<close>

theorem message_roundtrip_counterexample:
  "wf_message many_signers_message \<and>
   deserializeMessage (serializeMessage many_signers_message) \<noteq> Inr many_signers_message"
proof -
  have wf: "wf_message many_signers_message"
    by (simp add: many_signers_message_def wf_body_def wf_instruction_def list_all_iff)
  obtain b where b: "many_signers_message = Legacy b"
    and h: "numRequiredSignatures (header b) = 128"
    by (simp add: many_signers_message_def)
  from encodeBody_first [of b] h
  have "serializeMessage many_signers_message = 128 # tl (encodeBody b)"
    by (simp add: b)
  moreover have "deserializeMessage (128 # tl (encodeBody b)) \<noteq> Inr (Legacy b)"
    by (rule high_bit_not_legacy) simp
  ultimately show ?thesis
    using wf by (simp add: b)
qed

text \<open>
  A byte sequence that \<open>deserializeMessage\<close> accepts need not be a serialization: a
  length written with a superfluous continuation byte is decoded, and serialized
  again in its shortest form.
\<close>

lemma padded_length_not_preserved:
  "deserializeMessage padded_length_bytes =
     Inr (Legacy \<lparr>header = \<lparr>numRequiredSignatures = 1, numReadonlySignedAccounts = 0,
                              numReadonlyUnsignedAccounts = 0\<rparr>,
                  staticAccountKeys = [], recentBlockhash = replicate 32 7,
                  compiledInstructions = []\<rparr>) \<and>
   serializeMessage (Legacy \<lparr>header = \<lparr>numRequiredSignatures = 1,
       numReadonlySignedAccounts = 0, numReadonlyUnsignedAccounts = 0\<rparr>,
       staticAccountKeys = [], recentBlockhash = replicate 32 7,
       compiledInstructions = []\<rparr>) = [1, 0, 0, 0] @ replicate 32 7 @ [0]"
  by (simp add: padded_length_bytes_def deserializeMessage_def decodeBody_def decodeHeader_def
      decodeByte_def decodeArray_def decodeLength_def decodeBytes_def numeral_3_eq_3
      encodeBody_def encodeHeader_def encodeArray_def encodeLength.simps)

end
